theory Spec2Isabelle
  imports Main "HOL-Library.Finite_Map"
begin

section \<open>JavaScript values\<close>

text \<open>
  The server of \<^verbatim>\<open>src/server/server.js\<close> handles values that come out of
  \<^verbatim>\<open>JSON.parse\<close> (request bodies, the content of \<^verbatim>\<open>data/steps.json\<close>) and the
  objects it builds from them, where a property may hold \<^verbatim>\<open>undefined\<close>.

  A number is an IEEE double. The program does three things with a number: it tests its
  truthiness, it converts it with \<^verbatim>\<open>String\<close>, and it serialises it with
  \<^verbatim>\<open>JSON.stringify\<close>. Each is a function of the number's rendering
  (\<^verbatim>\<open>String(n)\<close>: \<^verbatim>\<open>"5"\<close>, \<^verbatim>\<open>"0.5"\<close>, \<^verbatim>\<open>"1e+21"\<close>, \<^verbatim>\<open>"NaN"\<close>, \<^verbatim>\<open>"Infinity"\<close>),
  so \<open>Num\<close> carries that rendering. The two zeros have the same rendering; the negative
  zero, which \<^verbatim>\<open>JSON.parse\<close> makes of \<^verbatim>\<open>-0\<close> and \<^verbatim>\<open>JSON.stringify\<close> writes as \<^verbatim>\<open>0\<close>, is
  \<open>Num ''-0''\<close>.

  A string is a list of 8-bit characters; code units above \<^verbatim>\<open>0xFF\<close> are outside the model.
  An object is the finite map of its own properties: the order of the properties, which
  the program never inspects, is not kept.
\<close>

datatype jsval =
    Undefined
  | Null
  | Bool bool
  | Num string
  | Str string
  | Arr "jsval list"
  | Obj "(string, jsval) fmap"

text \<open>
  The exceptions that end an evaluation: a TypeError (a property read on \<^verbatim>\<open>null\<close> or
  \<^verbatim>\<open>undefined\<close>, a value that cannot be converted to a primitive), a RangeError (\<^verbatim>\<open>Maximum
  call stack size exceeded\<close>, when a built-in function recurses deeper than the call stack
  admits), the SyntaxError of \<^verbatim>\<open>JSON.parse\<close>, and the ENOENT of reading a file that does not
  exist.
\<close>

datatype error = TypeError | RangeError | SyntaxError | ENOENT

text \<open>Sequencing of computations that may throw: the first exception ends the evaluation.\<close>

definition and_then :: "error + 'a \<Rightarrow> ('a \<Rightarrow> error + 'b) \<Rightarrow> error + 'b" where
  "and_then r f = (case r of Inl e \<Rightarrow> Inl e | Inr x \<Rightarrow> f x)"

text \<open>\<^verbatim>\<open>!v\<close> is \<open>\<not> truthy v\<close>.\<close>

fun truthy :: "jsval \<Rightarrow> bool" where
  "truthy Undefined = False"
| "truthy Null = False"
| "truthy (Bool b) = b"
| "truthy (Num n) = (n \<noteq> ''0'' \<and> n \<noteq> ''-0'' \<and> n \<noteq> ''NaN'')"
| "truthy (Str s) = (s \<noteq> [])"
| "truthy (Arr xs) = True"
| "truthy (Obj m) = True"

text \<open>\<^verbatim>\<open>v != null\<close> is \<open>\<not> nullish v\<close>; \<^verbatim>\<open>v ?? d\<close> is \<open>coalesce v d\<close>.\<close>

fun nullish :: "jsval \<Rightarrow> bool" where
  "nullish Undefined = True"
| "nullish Null = True"
| "nullish v = False"

definition coalesce :: "jsval \<Rightarrow> jsval \<Rightarrow> jsval" where
  "coalesce v d = (if nullish v then d else v)"

fun isArray :: "jsval \<Rightarrow> bool" where
  "isArray (Arr xs) = True"
| "isArray v = False"

text \<open>
  Reading a property. The names the program reads (\<^verbatim>\<open>title\<close>, \<^verbatim>\<open>category\<close>, \<^verbatim>\<open>icon\<close>,
  \<^verbatim>\<open>content\<close>, \<^verbatim>\<open>commands\<close>, \<^verbatim>\<open>vars\<close>, \<^verbatim>\<open>id\<close>, \<^verbatim>\<open>key\<close>, \<^verbatim>\<open>label\<close>, \<^verbatim>\<open>placeholder\<close>) are
  defined by no prototype, so on a receiver other than \<^verbatim>\<open>null\<close> and \<^verbatim>\<open>undefined\<close> the
  result is the own property of an object and \<^verbatim>\<open>undefined\<close> on anything else (\<open>property\<close>).
  \<^verbatim>\<open>v.k\<close> throws a TypeError on \<^verbatim>\<open>null\<close> and \<^verbatim>\<open>undefined\<close> (\<open>member\<close>); \<^verbatim>\<open>v?.k\<close> yields
  \<^verbatim>\<open>undefined\<close> there (\<open>opt_member\<close>).
\<close>

fun property :: "jsval \<Rightarrow> string \<Rightarrow> jsval" where
  "property (Obj m) k = (case fmlookup m k of None \<Rightarrow> Undefined | Some v \<Rightarrow> v)"
| "property v k = Undefined"

definition member :: "jsval \<Rightarrow> string \<Rightarrow> error + jsval" where
  "member v k = (if nullish v then Inl TypeError else Inr (property v k))"

definition opt_member :: "jsval \<Rightarrow> string \<Rightarrow> jsval" where
  "opt_member v k = (if nullish v then Undefined else property v k)"

text \<open>
  \<^verbatim>\<open>String(v)\<close>. An array is joined with commas, \<^verbatim>\<open>null\<close> and \<^verbatim>\<open>undefined\<close> elements
  giving the empty string. An object is converted by its \<^verbatim>\<open>toString\<close> method, then by
  \<^verbatim>\<open>valueOf\<close>: the inherited \<^verbatim>\<open>toString\<close> gives \<^verbatim>\<open>[object Object]\<close>; an own property
  \<^verbatim>\<open>toString\<close> hides it, is not callable in an object that came out of JSON, and the
  conversion ends with a TypeError (\<^verbatim>\<open>valueOf\<close>, own or inherited, gives no primitive).

  The conversion of an array calls the conversion of its elements, an array inside an array
  one level deeper on the call stack, and the engine ends it with a RangeError when the
  stack is exhausted (from some thousand levels on). The first argument is the number of
  levels of nested arrays that the call stack admits at the call; its value depends on the
  engine and is a parameter. The elements are converted from left to right, so the first
  exception met is the one raised.
\<close>

fun to_string :: "nat \<Rightarrow> jsval \<Rightarrow> error + string"
  and join :: "nat \<Rightarrow> jsval list \<Rightarrow> error + string" where
  "to_string depth Undefined = Inr ''undefined''"
| "to_string depth Null = Inr ''null''"
| "to_string depth (Bool b) = Inr (if b then ''true'' else ''false'')"
| "to_string depth (Num n) = Inr (if n = ''-0'' then ''0'' else n)"
| "to_string depth (Str s) = Inr s"
| "to_string depth (Arr xs) = (if depth = 0 then Inl RangeError else join (depth - 1) xs)"
| "to_string depth (Obj m) =
     (if ''toString'' |\<in>| fmdom m then Inl TypeError else Inr ''[object Object]'')"
| "join depth [] = Inr ''''"
| "join depth (x # xs) =
     (case (if nullish x then Inr '''' else to_string depth x) of
        Inl e \<Rightarrow> Inl e
      | Inr s \<Rightarrow>
          (if xs = [] then Inr s
           else (case join depth xs of Inl e \<Rightarrow> Inl e | Inr t \<Rightarrow> Inr (s @ '','' @ t))))"

text \<open>\<^verbatim>\<open>xs.map(f)\<close> with a callback that may throw, and \<^verbatim>\<open>xs.map(String)\<close>.\<close>

fun map_throwing :: "('a \<Rightarrow> error + 'b) \<Rightarrow> 'a list \<Rightarrow> error + 'b list" where
  "map_throwing f [] = Inr []"
| "map_throwing f (x # xs) =
     and_then (f x) (\<lambda>y. and_then (map_throwing f xs) (\<lambda>ys. Inr (y # ys)))"

definition String :: "nat \<Rightarrow> jsval \<Rightarrow> error + jsval" where
  "String depth v = and_then (to_string depth v) (\<lambda>s. Inr (Str s))"

text \<open>
  \<^verbatim>\<open>s.trim()\<close> removes white space and line terminators at both ends; among the 8-bit
  characters these are TAB, LF, VT, FF, CR, SP and NBSP.
\<close>

definition is_space :: "char \<Rightarrow> bool" where
  "is_space c = (c \<in> set [CHR 0x09, CHR 0x0A, CHR 0x0B, CHR 0x0C, CHR 0x0D, CHR 0x20, CHR 0xA0])"

definition trim :: "string \<Rightarrow> string" where
  "trim s = rev (dropWhile is_space (rev (dropWhile is_space s)))"

text \<open>Decimal rendering of a natural number (\<^verbatim>\<open>Date.now()\<close> in a template, an array index).\<close>

definition digit :: "nat \<Rightarrow> char" where
  "digit d = ''0123456789'' ! d"

fun show_nat :: "nat \<Rightarrow> string" where
  "show_nat n = (if n < 10 then [digit n] else show_nat (n div 10) @ [digit (n mod 10)])"

declare show_nat.simps [simp del]

text \<open>
  \<^verbatim>\<open>JSON.parse(JSON.stringify(v, null, 2))\<close>: what is read back after \<open>v\<close> was written.
  A property holding \<^verbatim>\<open>undefined\<close> is left out, an \<^verbatim>\<open>undefined\<close> array element and a
  number that is not finite become \<^verbatim>\<open>null\<close>, the negative zero becomes zero.
  (\<^verbatim>\<open>JSON.stringify(undefined)\<close> is \<^verbatim>\<open>undefined\<close>; the program serialises arrays and
  objects only.)
\<close>

primrec jsonify :: "jsval \<Rightarrow> jsval" where
  "jsonify Undefined = Undefined"
| "jsonify Null = Null"
| "jsonify (Bool b) = Bool b"
| "jsonify (Num n) =
     (if n \<in> set [''NaN'', ''Infinity'', ''-Infinity''] then Null
      else if n = ''-0'' then Num ''0'' else Num n)"
| "jsonify (Str s) = Str s"
| "jsonify (Arr xs) = Arr (map (\<lambda>y. if y = Undefined then Null else y) (map jsonify xs))"
| "jsonify (Obj m) = Obj (fmfilter (\<lambda>k. fmlookup m k \<noteq> Some Undefined) (fmmap jsonify m))"

text \<open>
  \<^verbatim>\<open>JSON.stringify\<close> serialises the elements of an array and the properties of an object by
  recursion, one level deeper on the call stack for each level of nesting, and ends with a
  RangeError when the stack is exhausted. \<open>nested_within v n\<close> says that the arrays and
  objects of \<open>v\<close> are nested at most \<open>n\<close> levels deep.
\<close>

primrec nested_within :: "jsval \<Rightarrow> nat \<Rightarrow> bool" where
  "nested_within Undefined = (\<lambda>n. True)"
| "nested_within Null = (\<lambda>n. True)"
| "nested_within (Bool b) = (\<lambda>n. True)"
| "nested_within (Num x) = (\<lambda>n. True)"
| "nested_within (Str s) = (\<lambda>n. True)"
| "nested_within (Arr xs) = (\<lambda>n. n \<noteq> 0 \<and> list_all (\<lambda>f. f (n - 1)) (map nested_within xs))"
| "nested_within (Obj m) = (\<lambda>n. n \<noteq> 0 \<and> fmpred (\<lambda>k f. f (n - 1)) (fmmap nested_within m))"

declare nested_within.simps(6,7) [simp del]

section \<open>Storage\<close>

text \<open>
  The file \<^verbatim>\<open>data/steps.json\<close> is absent (\<open>None\<close>) or holds a text. A text is identified
  by what \<^verbatim>\<open>JSON.parse\<close> makes of it: \<open>NotJSON\<close> is a text that \<^verbatim>\<open>JSON.parse\<close> rejects
  with a SyntaxError, \<open>JSON_text v\<close> a text that \<^verbatim>\<open>JSON.parse\<close> maps to the value \<open>v\<close>.
  The text \<^verbatim>\<open>JSON.stringify(v, null, 2)\<close> is the one that parses to \<open>jsonify v\<close>.
  Reading an absent file fails with ENOENT; other failures of the file system (permissions,
  a full disk) are not modelled.

  \<open>JSON_stringify\<close> is the text that \<^verbatim>\<open>JSON.stringify\<close> produces when the call stack
  suffices; \<open>stack_overflow\<close> says when it does not. Its first argument is the number of
  levels of nesting, beyond the first, that the call stack admits at the call: a flat array
  or object is always serialised. (\<^verbatim>\<open>JSON.parse\<close> of Node keeps its own stack and is not
  bounded by the call stack.)
\<close>

datatype document = NotJSON | JSON_text jsval

type_synonym storage = "document option"

definition JSON_parse :: "document \<Rightarrow> error + jsval" where
  "JSON_parse d = (case d of NotJSON \<Rightarrow> Inl SyntaxError | JSON_text v \<Rightarrow> Inr v)"

definition JSON_stringify :: "jsval \<Rightarrow> document" where
  "JSON_stringify v = JSON_text (jsonify v)"

definition stack_overflow :: "nat \<Rightarrow> jsval \<Rightarrow> bool" where
  "stack_overflow depth v = (\<not> nested_within v (Suc depth))"

definition readFile :: "storage \<Rightarrow> error + document" where
  "readFile st = (case st of None \<Rightarrow> Inl ENOENT | Some d \<Rightarrow> Inr d)"

definition writeFile :: "document \<Rightarrow> storage \<Rightarrow> storage" where
  "writeFile d st = Some d"

definition ensureStorage :: "storage \<Rightarrow> storage" where
  "ensureStorage st =
     (case st of None \<Rightarrow> writeFile (JSON_stringify (Arr [])) st | Some d \<Rightarrow> st)"

text \<open>\<open>readSteps\<close> returns its result and the storage it leaves (the file may have been created).\<close>

definition readSteps :: "storage \<Rightarrow> (error + jsval list) \<times> storage" where
  "readSteps st =
     (let st1 = ensureStorage st
      in (and_then (readFile st1) (\<lambda>raw.
          and_then (JSON_parse raw) (\<lambda>data.
          Inr (case data of Arr xs \<Rightarrow> xs | _ \<Rightarrow> []))), st1))"

text \<open>
  \<open>writeSteps\<close> returns the exception that ended it, if any, and the storage it leaves:
  \<^verbatim>\<open>JSON.stringify(steps, null, 2)\<close> is evaluated after \<open>ensureStorage\<close> and before the
  file is written.
\<close>

definition writeSteps :: "nat \<Rightarrow> jsval list \<Rightarrow> storage \<Rightarrow> (error + unit) \<times> storage" where
  "writeSteps depth steps st =
     (let st1 = ensureStorage st
      in if stack_overflow depth (Arr steps) then (Inl RangeError, st1)
         else (Inr (), writeFile (JSON_stringify (Arr steps)) st1))"

section \<open>Identifiers and normalisation\<close>

text \<open>
  The clock and the random generator are inputs of a request: \<open>Date_now\<close> is the value of
  \<^verbatim>\<open>Date.now()\<close> in milliseconds, \<open>Math_random_16\<close> the text of
  \<^verbatim>\<open>Math.random().toString(16)\<close> (such as \<^verbatim>\<open>0.8f3c\<close>), \<open>toISOString\<close> the text of
  \<^verbatim>\<open>new Date().toISOString()\<close>. So is the call stack: \<open>String_depth\<close> is the number of
  levels of nested arrays that \<^verbatim>\<open>String\<close> converts before the stack is exhausted,
  \<open>JSON_depth\<close> the number of levels of nesting, beyond the first, that \<^verbatim>\<open>JSON.stringify\<close>
  serialises; each is taken to be the same at every call of one request.
\<close>

record env =
  Date_now :: nat
  Math_random_16 :: string
  toISOString :: string
  String_depth :: nat
  JSON_depth :: nat

definition newId :: "env \<Rightarrow> string" where
  "newId env = show_nat (Date_now env) @ ''-'' @ drop 2 (Math_random_16 env)"

text \<open>The callback of \<^verbatim>\<open>vars.map\<close> in \<^verbatim>\<open>normalizeVars\<close>, and the one of \<^verbatim>\<open>filter\<close>.\<close>

definition trimmed_or_empty :: "nat \<Rightarrow> jsval \<Rightarrow> error + jsval" where
  "trimmed_or_empty depth x =
     (if \<not> nullish x then and_then (to_string depth x) (\<lambda>s. Inr (Str (trim s)))
      else Inr (Str ''''))"

definition coerce_var :: "nat \<Rightarrow> jsval \<Rightarrow> error + jsval" where
  "coerce_var depth v =
     and_then (trimmed_or_empty depth (opt_member v ''key'')) (\<lambda>k.
     and_then (trimmed_or_empty depth (opt_member v ''label'')) (\<lambda>l.
     and_then (if \<not> nullish (opt_member v ''placeholder'')
               then String depth (opt_member v ''placeholder'') else Inr Undefined) (\<lambda>p.
     Inr (Obj (fmap_of_list [(''key'', k), (''label'', l), (''placeholder'', p)])))))"

fun str_length :: "jsval \<Rightarrow> nat" where
  "str_length (Str s) = length s"
| "str_length v = 0"

definition keeps :: "jsval \<Rightarrow> bool" where
  "keeps v = (str_length (property v ''key'') > 0 \<and> str_length (property v ''label'') > 0)"

text \<open>\<open>normalizeVars\<close>; the first argument is the depth that the call stack admits.\<close>

definition normalizeVars :: "nat \<Rightarrow> jsval \<Rightarrow> error + jsval" where
  "normalizeVars depth vars =
     (case vars of
        Arr xs \<Rightarrow>
          (if length xs = 0 then Inr Undefined
           else and_then (map_throwing (coerce_var depth) xs) (\<lambda>mapped.
                  let cleaned = filter keeps mapped
                  in Inr (if length cleaned \<noteq> 0 then Arr cleaned else Undefined)))
      | _ \<Rightarrow> Inr Undefined)"

text \<open>
  The normalisation of \<^verbatim>\<open>commands\<close>, written inline in both handlers:
  \<^verbatim>\<open>Array.isArray(commands) && commands.length ? commands.map(String) : undefined\<close>.
\<close>

definition normalizeCommands :: "nat \<Rightarrow> jsval \<Rightarrow> error + jsval" where
  "normalizeCommands depth commands =
     (case commands of
        Arr xs \<Rightarrow>
          (if length xs \<noteq> 0
           then and_then (map_throwing (String depth) xs) (\<lambda>ys. Inr (Arr ys))
           else Inr Undefined)
      | _ \<Rightarrow> Inr Undefined)"

section \<open>Request handlers\<close>

text \<open>
  A response is a status and the JSON document sent, given as the value a client parses
  out of it. A handler returns the response, or the exception that ended it, and the
  storage it leaves. \<open>res_json\<close> is the response that \<^verbatim>\<open>res.status(code).json(v)\<close> sends,
  \<open>send_json\<close> the call, which serialises \<open>v\<close> with \<^verbatim>\<open>JSON.stringify\<close>.
\<close>

record response =
  status :: nat
  body :: "jsval option"

definition res_json :: "nat \<Rightarrow> jsval \<Rightarrow> response" where
  "res_json code v = \<lparr>status = code, body = Some (jsonify v)\<rparr>"

definition send_json :: "env \<Rightarrow> nat \<Rightarrow> jsval \<Rightarrow> error + response" where
  "send_json env code v =
     (if stack_overflow (JSON_depth env) v then Inl RangeError else Inr (res_json code v))"

definition res_send :: "nat \<Rightarrow> response" where
  "res_send code = \<lparr>status = code, body = None\<rparr>"

definition required_message :: jsval where
  "required_message =
     Obj (fmap_of_list [(''message'', Str ''title, category, icon, content are required'')])"

definition not_found_message :: jsval where
  "not_found_message = Obj (fmap_of_list [(''message'', Str ''not found'')])"

definition get_health :: "env \<Rightarrow> storage \<Rightarrow> (error + response) \<times> storage" where
  "get_health env st = (send_json env 200 (Obj (fmap_of_list [(''ok'', Bool True)])), st)"

definition get_steps :: "env \<Rightarrow> storage \<Rightarrow> (error + response) \<times> storage" where
  "get_steps env st =
     (case readSteps st of
        (Inl e, st1) \<Rightarrow> (Inl e, st1)
      | (Inr steps, st1) \<Rightarrow> (send_json env 200 (Arr steps), st1))"

text \<open>The object literal of \<^verbatim>\<open>app.post('/steps')\<close>, its properties evaluated in order.\<close>

definition new_step ::
  "env \<Rightarrow> jsval \<Rightarrow> jsval \<Rightarrow> jsval \<Rightarrow> jsval \<Rightarrow> jsval \<Rightarrow> jsval \<Rightarrow> error + jsval" where
  "new_step env title category icon content commands vars =
     and_then (String (String_depth env) title) (\<lambda>t.
     and_then (String (String_depth env) category) (\<lambda>c.
     and_then (String (String_depth env) icon) (\<lambda>i.
     and_then (String (String_depth env) content) (\<lambda>n.
     and_then (normalizeCommands (String_depth env) commands) (\<lambda>cs.
     and_then (normalizeVars (String_depth env) vars) (\<lambda>vs.
     Inr (Obj (fmap_of_list
       [(''id'', Str (newId env)),
        (''title'', t),
        (''category'', c),
        (''icon'', i),
        (''content'', n),
        (''commands'', cs),
        (''vars'', vs),
        (''createdAt'', Str (toISOString env))]))))))))"

definition post_steps :: "env \<Rightarrow> jsval \<Rightarrow> storage \<Rightarrow> (error + response) \<times> storage" where
  "post_steps env req_body st =
     (let b = coalesce req_body (Obj fmempty);
          title = property b ''title'';
          category = property b ''category'';
          icon = property b ''icon'';
          content = property b ''content'';
          commands = property b ''commands'';
          vars = property b ''vars''
      in if \<not> truthy title \<or> \<not> truthy category \<or> \<not> truthy icon \<or> \<not> truthy content
         then (send_json env 400 required_message, st)
         else (case readSteps st of
                 (Inl e, st1) \<Rightarrow> (Inl e, st1)
               | (Inr steps, st1) \<Rightarrow>
                   (case new_step env title category icon content commands vars of
                      Inl e \<Rightarrow> (Inl e, st1)
                    | Inr step \<Rightarrow>
                        (case writeSteps (JSON_depth env) (step # steps) st1 of
                           (Inl e, st2) \<Rightarrow> (Inl e, st2)
                         | (Inr u, st2) \<Rightarrow> (send_json env 201 step, st2)))))"

text \<open>\<^verbatim>\<open>steps.findIndex((s) => s.id === id)\<close>: the first index whose element passes.\<close>

definition has_id :: "string \<Rightarrow> jsval \<Rightarrow> error + bool" where
  "has_id ident s = and_then (member s ''id'') (\<lambda>v. Inr (v = Str ident))"

fun findIndex :: "('a \<Rightarrow> error + bool) \<Rightarrow> 'a list \<Rightarrow> error + nat option" where
  "findIndex p [] = Inr None"
| "findIndex p (x # xs) =
     and_then (p x) (\<lambda>b.
       if b then Inr (Some 0)
       else and_then (findIndex p xs) (\<lambda>r. Inr (map_option Suc r)))"

text \<open>
  The own enumerable properties that a spread \<^verbatim>\<open>{...v}\<close> copies: those of an object,
  the elements of an array and the characters of a string under their indices, nothing
  for any other value.
\<close>

definition indexed :: "jsval list \<Rightarrow> (string \<times> jsval) list" where
  "indexed xs = zip (map show_nat [0..<length xs]) xs"

fun spread :: "jsval \<Rightarrow> (string, jsval) fmap" where
  "spread (Obj m) = m"
| "spread (Arr xs) = fmap_of_list (indexed xs)"
| "spread (Str s) = fmap_of_list (indexed (map (\<lambda>c. Str [c]) s))"
| "spread v = fmempty"

text \<open>\<^verbatim>\<open>{ ...existing, ...patch, id, updatedAt: new Date().toISOString() }\<close>\<close>

definition merged :: "env \<Rightarrow> string \<Rightarrow> jsval \<Rightarrow> jsval \<Rightarrow> (string, jsval) fmap" where
  "merged env ident existing patch =
     fmupd ''updatedAt'' (Str (toISOString env))
       (fmupd ''id'' (Str ident) (spread existing ++\<^sub>f spread patch))"

text \<open>The two assignments \<^verbatim>\<open>updated.commands = ...\<close> and \<^verbatim>\<open>updated.vars = ...\<close>.\<close>

definition renormalize :: "nat \<Rightarrow> (string, jsval) fmap \<Rightarrow> error + (string, jsval) fmap" where
  "renormalize depth updated =
     and_then (if property (Obj updated) ''commands'' \<noteq> Undefined
               then and_then (normalizeCommands depth (property (Obj updated) ''commands''))
                      (\<lambda>cs. Inr (fmupd ''commands'' cs updated))
               else Inr updated) (\<lambda>updated1.
     if property (Obj updated1) ''vars'' \<noteq> Undefined
     then and_then (normalizeVars depth (property (Obj updated1) ''vars''))
            (\<lambda>vs. Inr (fmupd ''vars'' vs updated1))
     else Inr updated1)"

definition put_steps ::
  "env \<Rightarrow> string \<Rightarrow> jsval \<Rightarrow> storage \<Rightarrow> (error + response) \<times> storage" where
  "put_steps env ident req_body st =
     (case readSteps st of
        (Inl e, st1) \<Rightarrow> (Inl e, st1)
      | (Inr steps, st1) \<Rightarrow>
          (case findIndex (has_id ident) steps of
             Inl e \<Rightarrow> (Inl e, st1)
           | Inr None \<Rightarrow> (send_json env 404 not_found_message, st1)
           | Inr (Some idx) \<Rightarrow>
               (let patch = coalesce req_body (Obj fmempty);
                    updated = merged env ident (steps ! idx) patch
                in if \<not> truthy (property (Obj updated) ''title'')
                      \<or> \<not> truthy (property (Obj updated) ''category'')
                      \<or> \<not> truthy (property (Obj updated) ''icon'')
                      \<or> \<not> truthy (property (Obj updated) ''content'')
                   then (send_json env 400 required_message, st1)
                   else (case renormalize (String_depth env) updated of
                           Inl e \<Rightarrow> (Inl e, st1)
                         | Inr updated2 \<Rightarrow>
                             (case writeSteps (JSON_depth env) (steps[idx := Obj updated2]) st1 of
                                (Inl e, st2) \<Rightarrow> (Inl e, st2)
                              | (Inr u, st2) \<Rightarrow> (send_json env 200 (Obj updated2), st2))))))"

text \<open>\<^verbatim>\<open>steps.filter((s) => s.id !== id)\<close>: the callback runs on every element.\<close>

fun filter_throwing :: "('a \<Rightarrow> error + bool) \<Rightarrow> 'a list \<Rightarrow> error + 'a list" where
  "filter_throwing p [] = Inr []"
| "filter_throwing p (x # xs) =
     and_then (p x) (\<lambda>b.
     and_then (filter_throwing p xs) (\<lambda>ys. Inr (if b then x # ys else ys)))"

definition delete_steps :: "env \<Rightarrow> string \<Rightarrow> storage \<Rightarrow> (error + response) \<times> storage" where
  "delete_steps env ident st =
     (case readSteps st of
        (Inl e, st1) \<Rightarrow> (Inl e, st1)
      | (Inr steps, st1) \<Rightarrow>
          (case filter_throwing (\<lambda>s. and_then (has_id ident s) (\<lambda>b. Inr (\<not> b))) steps of
             Inl e \<Rightarrow> (Inl e, st1)
           | Inr next \<Rightarrow>
               (if length next = length steps
                then (send_json env 404 not_found_message, st1)
                else (case writeSteps (JSON_depth env) next st1 of
                        (Inl e, st2) \<Rightarrow> (Inl e, st2)
                      | (Inr u, st2) \<Rightarrow> (Inr (res_send 204), st2)))))"

text \<open>The routes.\<close>

datatype request =
    GET_health
  | GET_steps
  | POST_steps jsval
  | PUT_steps string jsval
  | DELETE_steps string

fun handle :: "env \<Rightarrow> request \<Rightarrow> storage \<Rightarrow> (error + response) \<times> storage" where
  "handle env GET_health st = get_health env st"
| "handle env GET_steps st = get_steps env st"
| "handle env (POST_steps b) st = post_steps env b st"
| "handle env (PUT_steps ident b) st = put_steps env ident b st"
| "handle env (DELETE_steps ident) st = delete_steps env ident st"

text \<open>The collection in the file: what \<open>readSteps\<close> loads.\<close>

definition load :: "storage \<Rightarrow> error + jsval list" where
  "load st = fst (readSteps st)"

section \<open>Notions for the statements and their proofs\<close>

text \<open>
  An element of an array as \<^verbatim>\<open>JSON.parse\<close> gives it back after \<^verbatim>\<open>JSON.stringify\<close>:
  \<open>jsonify (Arr xs) = Arr (map json_element xs)\<close>.
\<close>

definition json_element :: "jsval \<Rightarrow> jsval" where
  "json_element x = (if x = Undefined then Null else jsonify x)"

text \<open>
  The values that \<^verbatim>\<open>String\<close> converts when the call stack admits \<open>depth\<close> levels of
  nested arrays: everything but an object with an own property \<^verbatim>\<open>toString\<close>, an array
  nested deeper than \<open>depth\<close> levels, and an array that holds such a value.
\<close>

fun stringable :: "nat \<Rightarrow> jsval \<Rightarrow> bool"
  and stringable_elements :: "nat \<Rightarrow> jsval list \<Rightarrow> bool" where
  "stringable depth (Arr xs) = (depth \<noteq> 0 \<and> stringable_elements (depth - 1) xs)"
| "stringable depth (Obj m) = (''toString'' |\<notin>| fmdom m)"
| "stringable depth v = True"
| "stringable_elements depth [] = True"
| "stringable_elements depth (x # xs) =
     ((nullish x \<or> stringable depth x) \<and> stringable_elements depth xs)"

text \<open>The value of a decimal digit, to read a rendering back.\<close>

definition digit_value :: "char \<Rightarrow> nat" where
  "digit_value c = of_char c - 48"

text \<open>The values of one field in the persisted records, in their order.\<close>

definition stored_field :: "string \<Rightarrow> storage \<Rightarrow> error + jsval list" where
  "stored_field k st = and_then (load st) (\<lambda>steps. Inr (map (\<lambda>s. property s k) steps))"

text \<open>
  The inputs on which the conversions of \<open>normalizeVars\<close> and of the normalisation of
  \<^verbatim>\<open>commands\<close> succeed, the call stack admitting \<open>depth\<close> levels.
\<close>

definition var_stringable :: "nat \<Rightarrow> jsval \<Rightarrow> bool" where
  "var_stringable depth v =
     (stringable depth (opt_member v ''key'') \<and> stringable depth (opt_member v ''label'')
      \<and> stringable depth (opt_member v ''placeholder''))"

definition vars_stringable :: "nat \<Rightarrow> jsval \<Rightarrow> bool" where
  "vars_stringable depth vars =
     (case vars of Arr xs \<Rightarrow> list_all (var_stringable depth) xs | _ \<Rightarrow> True)"

definition commands_stringable :: "nat \<Rightarrow> jsval \<Rightarrow> bool" where
  "commands_stringable depth commands =
     (case commands of Arr xs \<Rightarrow> list_all (stringable depth) xs | _ \<Rightarrow> True)"

text \<open>
  The values that \<^verbatim>\<open>JSON.stringify\<close> and \<^verbatim>\<open>JSON.parse\<close> give back as they are: those
  that hold no \<^verbatim>\<open>undefined\<close>, no number that is not finite and no negative zero.
\<close>

primrec json_exact :: "jsval \<Rightarrow> bool" where
  "json_exact Undefined = False"
| "json_exact Null = True"
| "json_exact (Bool b) = True"
| "json_exact (Num n) = (n \<notin> set [''NaN'', ''Infinity'', ''-Infinity'', ''-0''])"
| "json_exact (Str s) = True"
| "json_exact (Arr xs) = list_all (\<lambda>b. b) (map json_exact xs)"
| "json_exact (Obj m) = fmpred (\<lambda>k b. b) (fmmap json_exact m)"

declare json_exact.simps(7) [simp del]

text \<open>The required-field check of both handlers, \<^verbatim>\<open>!title || !category || !icon || !content\<close>, negated.\<close>

definition required_present :: "jsval \<Rightarrow> bool" where
  "required_present v =
     (truthy (property v ''title'') \<and> truthy (property v ''category'')
      \<and> truthy (property v ''icon'') \<and> truthy (property v ''content''))"

section \<open>The normalizer as the spec words it\<close>

text \<open>
  The Record Normalizer in the words of the spec (section 4.2), on a record type for the
  VarDef of its data model (section 3). The spec says that no error is ever raised by the
  operation, so its stringification is a total function: \<open>spec_string\<close> is the text of a
  value, the one that \<^verbatim>\<open>String\<close> gives when it gives one. \<open>spec_text\<close>: ``stringified
  and whitespace-trimmed (or become empty string if null/absent)''; the placeholder is
  ``stringified if present, otherwise left absent'', present meaning that the element has
  a placeholder other than \<^verbatim>\<open>null\<close>. \<open>spec_normalizeVars\<close>: ``if the input is not a
  non-empty sequence, result is absent. Otherwise, each element is coerced. Elements where
  trimmed key or trimmed label is empty are discarded. If after discarding the result is
  empty, the overall result is absent; otherwise it is the filtered, order-preserving
  sequence.'' Absent is \<open>None\<close>.
\<close>

record vardef =
  key :: string
  label :: string
  placeholder :: "string option"

fun spec_string :: "jsval \<Rightarrow> string"
  and spec_join :: "jsval list \<Rightarrow> string" where
  "spec_string Undefined = ''undefined''"
| "spec_string Null = ''null''"
| "spec_string (Bool b) = (if b then ''true'' else ''false'')"
| "spec_string (Num n) = (if n = ''-0'' then ''0'' else n)"
| "spec_string (Str s) = s"
| "spec_string (Arr xs) = spec_join xs"
| "spec_string (Obj m) = ''[object Object]''"
| "spec_join [] = ''''"
| "spec_join (x # xs) =
     (if nullish x then '''' else spec_string x) @ (if xs = [] then '''' else '','' @ spec_join xs)"

definition spec_text :: "jsval \<Rightarrow> string" where
  "spec_text x = (if nullish x then '''' else trim (spec_string x))"

definition spec_coerce :: "jsval \<Rightarrow> vardef" where
  "spec_coerce v =
     \<lparr>key = spec_text (opt_member v ''key''),
      label = spec_text (opt_member v ''label''),
      placeholder =
        (if nullish (opt_member v ''placeholder'') then None
         else Some (spec_string (opt_member v ''placeholder'')))\<rparr>"

definition spec_normalizeVars :: "jsval \<Rightarrow> vardef list option" where
  "spec_normalizeVars input =
     (case input of
        Arr (x # xs) \<Rightarrow>
          (let kept = filter (\<lambda>d. key d \<noteq> [] \<and> label d \<noteq> []) (map spec_coerce (x # xs))
           in if kept = [] then None else Some kept)
      | _ \<Rightarrow> None)"

text \<open>The JavaScript value that stands for a result of the spec's normalizer.\<close>

definition js_of_vardef :: "vardef \<Rightarrow> jsval" where
  "js_of_vardef d =
     Obj (fmap_of_list
       [(''key'', Str (key d)), (''label'', Str (label d)),
        (''placeholder'', case placeholder d of None \<Rightarrow> Undefined | Some s \<Rightarrow> Str s)])"

definition js_of_vardefs :: "vardef list option \<Rightarrow> jsval" where
  "js_of_vardefs r = (case r of None \<Rightarrow> Undefined | Some ds \<Rightarrow> Arr (map js_of_vardef ds))"

section \<open>Example requests\<close>

text \<open>
  A clock value, a random draw, a time stamp and a call stack that admits 3000 levels; a
  request body with the four required fields.
\<close>

definition env1 :: env where
  "env1 = \<lparr>Date_now = 1700000000000, Math_random_16 = ''0.8f3c'',
            toISOString = ''2023-11-14T22:13:20.000Z'',
            String_depth = 3000, JSON_depth = 3000\<rparr>"

definition body1 :: jsval where
  "body1 = Obj (fmap_of_list
     [(''title'', Str ''Copy''), (''category'', Str ''files''), (''icon'', Str ''copy''),
      (''content'', Str ''Copy the file'')])"

text \<open>
  A \<^verbatim>\<open>vars\<close> value whose key is an object with an own property \<^verbatim>\<open>toString\<close>, and the
  example of the spec.
\<close>

definition vars_with_own_toString :: jsval where
  "vars_with_own_toString =
     Arr [Obj (fmap_of_list
       [(''key'', Obj (fmap_of_list [(''toString'', Num ''1'')])), (''label'', Str ''Path'')])]"

definition vars_example :: jsval where
  "vars_example =
     Arr [Obj (fmap_of_list [(''key'', Str ''p''), (''label'', Str ''Path'')]),
          Obj (fmap_of_list [(''key'', Str ''''), (''label'', Str ''x'')])]"

text \<open>A request body whose title is an object with an own property \<^verbatim>\<open>toString\<close>.\<close>

definition body_with_own_toString :: jsval where
  "body_with_own_toString = Obj (fmap_of_list
     [(''title'', Obj (fmap_of_list [(''toString'', Num ''1'')])), (''category'', Str ''files''),
      (''icon'', Str ''copy''), (''content'', Str ''Copy the file'')])"

text \<open>
  Stored collections of one and of two records; a second draw at the same clock value; a
  collection as a hand-written file gives it, whose second record holds the number
  \<^verbatim>\<open>1e999\<close>, which \<^verbatim>\<open>JSON.parse\<close> reads as \<^verbatim>\<open>Infinity\<close>.
\<close>

definition record1 :: jsval where
  "record1 = Obj (fmap_of_list
     [(''id'', Str ''1700000000000-8f3c''), (''title'', Str ''Copy''),
      (''category'', Str ''files''), (''icon'', Str ''copy''),
      (''content'', Str ''Copy the file''),
      (''createdAt'', Str ''2023-11-14T22:13:20.000Z'')])"

definition record2 :: jsval where
  "record2 = Obj (fmap_of_list
     [(''id'', Str ''1700000000000-c41''), (''title'', Str ''List''),
      (''category'', Str ''files''), (''icon'', Str ''list''),
      (''content'', Str ''List the directory''),
      (''createdAt'', Str ''2023-11-14T22:13:20.000Z'')])"

definition record_1e999 :: jsval where
  "record_1e999 = Obj (fmap_of_list
     [(''id'', Str ''1700000000000-a5''), (''title'', Str ''Fill''),
      (''category'', Str ''files''), (''icon'', Str ''disk''),
      (''content'', Str ''Fill the disk''), (''size'', Num ''Infinity'')])"

definition storage1 :: storage where
  "storage1 = Some (JSON_text (Arr [record1]))"

definition storage2 :: storage where
  "storage2 = Some (JSON_text (Arr [record2, record1]))"

definition storage_1e999 :: storage where
  "storage_1e999 = Some (JSON_text (Arr [record1, record_1e999]))"

definition env2 :: env where
  "env2 = \<lparr>Date_now = 1700000000000, Math_random_16 = ''0.c41'',
            toISOString = ''2023-11-14T22:13:20.000Z'',
            String_depth = 3000, JSON_depth = 3000\<rparr>"

section \<open>Lemmas\<close>

subsection \<open>Exceptions and serialisation\<close>

lemma and_then_Inr [simp]: "and_then (Inr x) f = f x"
  by (simp add: and_then_def)

lemma and_then_Inl [simp]: "and_then (Inl e) f = Inl e"
  by (simp add: and_then_def)

lemma and_then_eq_Inr:
  "and_then r f = Inr y \<longleftrightarrow> (\<exists>x. r = Inr x \<and> f x = Inr y)"
  by (cases r) simp_all

lemma jsonify_Undefined_iff [simp]: "jsonify v = Undefined \<longleftrightarrow> v = Undefined"
  by (cases v) auto

lemma jsonify_idem [simp]: "jsonify (jsonify v) = jsonify v"
proof (induction v)
  case (Arr xs)
  then show ?case by (auto simp: comp_def)
next
  case (Obj m)
  define m' where "m' = fmfilter (\<lambda>k. fmlookup m k \<noteq> Some Undefined) (fmmap jsonify m)"
  have "fmlookup (fmfilter (\<lambda>k. fmlookup m' k \<noteq> Some Undefined) (fmmap jsonify m')) k
      = fmlookup m' k" for k
  proof (cases "fmlookup m k")
    case None
    then show ?thesis by (simp add: m'_def)
  next
    case (Some v)
    then have "v \<in> fmran' m" by (rule fmran'I)
    then have "jsonify (jsonify v) = jsonify v" by (rule Obj.IH)
    with Some show ?thesis by (simp add: m'_def)
  qed
  then have "fmfilter (\<lambda>k. fmlookup m' k \<noteq> Some Undefined) (fmmap jsonify m') = m'"
    by (rule fmap_ext)
  moreover have "jsonify (Obj m) = Obj m'"
    by (simp add: m'_def)
  ultimately show ?case by (simp del: fmfilter_fmmap)
qed simp_all

lemma jsonify_property: "property (jsonify v) k = jsonify (property v k)"
  by (cases v) (auto split: option.splits)

lemma jsonify_Arr: "jsonify (Arr xs) = Arr (map json_element xs)"
  by (simp add: json_element_def comp_def)

lemma json_element_idem [simp]: "json_element (json_element x) = json_element x"
  by (simp add: json_element_def)

lemma json_element_jsonify: "x \<noteq> Undefined \<Longrightarrow> json_element x = jsonify x"
  by (simp add: json_element_def)

lemmas storage_defs =
  readSteps_def ensureStorage_def readFile_def writeFile_def JSON_parse_def
  JSON_stringify_def

lemma readSteps_load: "readSteps st = (load st, ensureStorage st)"
  by (simp add: readSteps_def load_def Let_def)

lemma ensureStorage_idem [simp]: "ensureStorage (ensureStorage st) = ensureStorage st"
  by (simp add: ensureStorage_def writeFile_def split: option.splits)

lemma load_ensureStorage [simp]: "load (ensureStorage st) = load st"
  by (simp add: load_def readSteps_def Let_def)

lemma nested_within_Arr [simp]:
  "nested_within (Arr xs) n \<longleftrightarrow> n \<noteq> 0 \<and> list_all (\<lambda>x. nested_within x (n - 1)) xs"
  by (simp add: nested_within.simps list_all_iff)

lemma nested_within_Obj:
  "nested_within (Obj m) n \<longleftrightarrow> n \<noteq> 0 \<and> (\<forall>k v. fmlookup m k = Some v \<longrightarrow> nested_within v (n - 1))"
  by (auto simp: nested_within.simps fmpred_iff)

lemma nested_within_fmupd:
  "nested_within (Obj (fmupd k v m)) n \<longleftrightarrow>
     nested_within v (n - 1) \<and> nested_within (Obj (fmdrop k m)) n"
  by (auto simp: nested_within_Obj split: if_splits)

lemma nested_within_fmempty [simp]: "nested_within (Obj fmempty) n \<longleftrightarrow> n \<noteq> 0"
  by (simp add: nested_within_Obj)

lemma nested_within_mono: "nested_within v n \<Longrightarrow> n \<le> n' \<Longrightarrow> nested_within v n'"
proof (induction v arbitrary: n n')
  case (Arr xs)
  then show ?case
    by (auto simp: list_all_iff intro: diff_le_mono)
next
  case (Obj m)
  then show ?case
    by (auto simp: nested_within_Obj) (meson diff_le_mono fmran'I)
qed simp_all

lemma nested_within_jsonify: "nested_within v n \<Longrightarrow> nested_within (jsonify v) n"
proof (induction v arbitrary: n)
  case (Arr xs)
  then show ?case
    by (auto simp: list_all_iff)
next
  case (Obj m)
  then show ?case
    by (auto simp: nested_within_Obj fmran'I)
qed simp_all

lemma nested_within_json_element: "nested_within v n \<Longrightarrow> nested_within (json_element v) n"
  by (simp add: json_element_def nested_within_jsonify)

lemma stack_overflow_Arr:
  "stack_overflow depth (Arr xs) \<longleftrightarrow> \<not> list_all (\<lambda>x. nested_within x depth) xs"
  by (simp add: stack_overflow_def)

lemma stack_overflow_element:
  "\<not> stack_overflow depth (Arr xs) \<Longrightarrow> x \<in> set xs \<Longrightarrow> \<not> stack_overflow depth x"
  by (auto simp: stack_overflow_def list_all_iff intro: nested_within_mono)

lemma stack_overflow_json_elements:
  "\<not> stack_overflow depth (Arr xs) \<Longrightarrow> \<not> stack_overflow depth (Arr (map json_element xs))"
  by (auto simp: stack_overflow_def list_all_iff intro: nested_within_json_element)

lemma stack_overflow_mono:
  "\<not> stack_overflow depth v \<Longrightarrow> depth \<le> depth' \<Longrightarrow> \<not> stack_overflow depth' v"
  by (auto simp: stack_overflow_def intro: nested_within_mono)

lemma writeSteps_returns:
  "\<not> stack_overflow depth (Arr steps) \<Longrightarrow>
     writeSteps depth steps st = (Inr (), Some (JSON_text (Arr (map json_element steps))))"
  by (simp add: writeSteps_def storage_defs jsonify_Arr Let_def del: jsonify.simps
      split: option.splits)

lemma writeSteps_raises:
  "stack_overflow depth (Arr steps) \<Longrightarrow>
     writeSteps depth steps st = (Inl RangeError, ensureStorage st)"
  by (simp add: writeSteps_def Let_def)

lemma writeSteps_cases:
  "writeSteps depth steps st = (Inl RangeError, ensureStorage st) \<and> stack_overflow depth (Arr steps)
   \<or> writeSteps depth steps st = (Inr (), Some (JSON_text (Arr (map json_element steps))))
       \<and> \<not> stack_overflow depth (Arr steps)"
  using writeSteps_returns writeSteps_raises by blast

lemma load_written [simp]: "load (Some (JSON_text (Arr xs))) = Inr xs"
  by (simp add: load_def storage_defs)

lemma ensureStorage_Some [simp]: "ensureStorage (Some d) = Some d"
  by (simp add: ensureStorage_def)

lemma map_json_element_idem [simp]:
  "map json_element (map json_element xs) = map json_element xs"
  by simp

lemma send_json_returns:
  "\<not> stack_overflow (JSON_depth env) v \<Longrightarrow> send_json env code v = Inr (res_json code v)"
  by (simp add: send_json_def)

lemma send_required_message [simp]:
  "send_json env code required_message = Inr (res_json code required_message)"
  by (simp add: send_json_def stack_overflow_def required_message_def nested_within_Obj)

lemma send_not_found_message [simp]:
  "send_json env code not_found_message = Inr (res_json code not_found_message)"
  by (simp add: send_json_def stack_overflow_def not_found_message_def nested_within_Obj)

lemma send_json_status: "send_json env code v = Inr r \<Longrightarrow> status r = code"
  by (auto simp: send_json_def res_json_def split: if_splits)

lemma jsonify_eq_Str [simp]: "jsonify v = Str s \<longleftrightarrow> v = Str s"
  by (cases v) (auto split: if_splits)

lemma property_json_element:
  "\<not> nullish s \<Longrightarrow> property (json_element s) k = jsonify (property s k)"
  by (cases s) (auto simp: json_element_def jsonify_property simp del: jsonify.simps)

subsection \<open>Conversion to strings, searching and filtering\<close>

lemma to_string_stringable:
  "(stringable n v \<longrightarrow> (\<exists>s. to_string n v = Inr s))
     \<and> (\<not> stringable n v \<longrightarrow> to_string n v = Inl TypeError \<or> to_string n v = Inl RangeError)"
  "(stringable_elements n xs \<longrightarrow> (\<exists>s. join n xs = Inr s))
     \<and> (\<not> stringable_elements n xs \<longrightarrow> join n xs = Inl TypeError \<or> join n xs = Inl RangeError)"
  by (induction n v and n xs rule: to_string_join.induct) (auto split: sum.splits)

lemma findIndex_Some:
  "findIndex p xs = Inr (Some i) \<Longrightarrow>
     i < length xs \<and> p (xs ! i) = Inr True \<and> (\<forall>j<i. p (xs ! j) = Inr False)"
proof (induction xs arbitrary: i)
  case Nil
  then show ?case by simp
next
  case (Cons x xs)
  show ?case
  proof (cases "p x = Inr True")
    case True
    with Cons.prems show ?thesis by simp
  next
    case False
    with Cons.prems obtain i' where i': "p x = Inr False" "findIndex p xs = Inr (Some i')" "i = Suc i'"
      by (auto simp: and_then_eq_Inr split: if_splits)
    from Cons.IH [OF i'(2)] i'(1,3) show ?thesis
      by (auto simp: less_Suc_eq_0_disj)
  qed
qed

lemma findIndex_None:
  "findIndex p xs = Inr None \<Longrightarrow> \<forall>x\<in>set xs. p x = Inr False"
  by (induction xs) (auto simp: and_then_eq_Inr split: if_splits)

lemma findIndex_first:
  "i < length xs \<Longrightarrow> p (xs ! i) = Inr True \<Longrightarrow> \<forall>j<i. p (xs ! j) = Inr False \<Longrightarrow>
     findIndex p xs = Inr (Some i)"
proof (induction xs arbitrary: i)
  case Nil
  then show ?case by simp
next
  case (Cons x xs)
  show ?case
  proof (cases i)
    case 0
    with Cons.prems show ?thesis by simp
  next
    case (Suc i')
    with Cons.prems have "p x = Inr False" by auto
    moreover have "findIndex p xs = Inr (Some i')"
      using Cons.prems Suc by (intro Cons.IH) auto
    ultimately show ?thesis using Suc by simp
  qed
qed

lemma findIndex_absent:
  "\<forall>x\<in>set xs. p x = Inr False \<Longrightarrow> findIndex p xs = Inr None"
  by (induction xs) auto

lemma has_id_Inr: "has_id ident s = Inr b \<longleftrightarrow> \<not> nullish s \<and> b = (property s ''id'' = Str ident)"
  by (auto simp: has_id_def member_def)

lemma filter_throwing_Inr:
  "filter_throwing p xs = Inr ys \<Longrightarrow>
     ys = filter (\<lambda>x. p x = Inr True) xs \<and> (\<forall>x\<in>set xs. \<exists>b. p x = Inr b)"
  by (induction xs arbitrary: ys) (auto simp: and_then_eq_Inr split: if_splits)

lemma filter_throwing_total:
  "\<forall>x\<in>set xs. \<exists>b. p x = Inr b \<Longrightarrow> filter_throwing p xs = Inr (filter (\<lambda>x. p x = Inr True) xs)"
  by (induction xs) auto

lemma map_throwing_total:
  "\<forall>x\<in>set xs. \<exists>y. f x = Inr y \<Longrightarrow> \<exists>ys. map_throwing f xs = Inr ys \<and> length ys = length xs"
  by (induction xs) auto

lemma map_throwing_fails:
  "\<exists>x\<in>set xs. \<exists>e. f x = Inl e \<Longrightarrow> \<exists>e. map_throwing f xs = Inl e \<and> (\<exists>x\<in>set xs. f x = Inl e)"
proof (induction xs)
  case Nil
  then show ?case by simp
next
  case (Cons x xs)
  show ?case
  proof (cases "f x")
    case (Inl e')
    then show ?thesis by auto
  next
    case (Inr y)
    with Cons.prems have "\<exists>x\<in>set xs. \<exists>e. f x = Inl e" by auto
    with Cons.IH obtain e where "map_throwing f xs = Inl e" "\<exists>x\<in>set xs. f x = Inl e" by blast
    with Inr show ?thesis by auto
  qed
qed

subsection \<open>Decimal rendering and identifiers\<close>

lemma digit_cases:
  assumes "d < (10::nat)"
  obtains "d = 0" | "d = 1" | "d = 2" | "d = 3" | "d = 4" | "d = 5" | "d = 6" | "d = 7"
    | "d = 8" | "d = 9"
proof -
  from assms have "d = 0 \<or> d = 1 \<or> d = 2 \<or> d = 3 \<or> d = 4 \<or> d = 5 \<or> d = 6 \<or> d = 7
    \<or> d = 8 \<or> d = 9"
    by presburger
  with that show thesis by blast
qed

lemma digit_value_digit: "d < 10 \<Longrightarrow> digit_value (digit d) = d"
  by (erule digit_cases) (simp_all add: digit_value_def digit_def)

lemma show_nat_value: "foldl (\<lambda>a c. 10 * a + digit_value c) 0 (show_nat n) = n"
proof (induction n rule: show_nat.induct)
  case (1 n)
  show ?case
  proof (cases "n < 10")
    case True
    then show ?thesis by (subst show_nat.simps) (simp add: digit_value_digit)
  next
    case False
    with 1 show ?thesis by (subst show_nat.simps) (simp add: digit_value_digit)
  qed
qed

lemma show_nat_inj: "show_nat a = show_nat b \<Longrightarrow> a = b"
  by (metis show_nat_value)

lemma digit_not_dash: "d < 10 \<Longrightarrow> CHR ''-'' \<noteq> digit d"
  by (erule digit_cases) (simp_all add: digit_def)

lemma show_nat_no_dash: "CHR ''-'' \<notin> set (show_nat n)"
proof (induction n rule: show_nat.induct)
  case (1 n)
  show ?case
  proof (cases "n < 10")
    case True
    then show ?thesis by (subst show_nat.simps) (simp add: digit_not_dash)
  next
    case False
    with 1 show ?thesis by (subst show_nat.simps) (simp add: digit_not_dash)
  qed
qed

lemma split_at_separator:
  "c \<notin> set xs \<Longrightarrow> c \<notin> set ys \<Longrightarrow> xs @ c # u = ys @ c # v \<Longrightarrow> xs = ys \<and> u = v"
proof (induction xs arbitrary: ys)
  case Nil
  then show ?case by (cases ys) auto
next
  case (Cons x xs)
  then show ?case by (cases ys) auto
qed

lemma newId_eq_iff:
  "newId e1 = newId e2 \<longleftrightarrow>
     Date_now e1 = Date_now e2 \<and> drop 2 (Math_random_16 e1) = drop 2 (Math_random_16 e2)"
  using split_at_separator [OF show_nat_no_dash show_nat_no_dash,
      of "Date_now e1" "drop 2 (Math_random_16 e1)" "Date_now e2" "drop 2 (Math_random_16 e2)"]
  by (auto simp: newId_def dest: show_nat_inj)

subsection \<open>Evaluation of the examples\<close>

lemma newId_env1: "newId env1 = ''1700000000000-8f3c''"
  by (simp add: newId_def env1_def show_nat.simps digit_def)

lemma env1_depth: "String_depth env1 = 3000" "JSON_depth env1 = 3000"
  by (simp_all add: env1_def)

lemmas handler_defs =
  post_steps_def put_steps_def delete_steps_def get_steps_def storage_defs writeSteps_def
  send_json_def stack_overflow_def nested_within_fmupd fmdrop_fmupd fmmap_fmupd
  load_def stored_field_def
  new_step_def String_def normalizeCommands_def normalizeVars_def coerce_var_def
  trimmed_or_empty_def opt_member_def member_def has_id_def keeps_def trim_def is_space_def
  merged_def renormalize_def coalesce_def res_json_def res_send_def
  required_message_def not_found_message_def Let_def

subsection \<open>When the normalisations return\<close>

lemma to_string_total: "stringable n v \<Longrightarrow> \<exists>s. to_string n v = Inr s"
  using to_string_stringable(1) by blast

lemma to_string_fails:
  "\<not> stringable n v \<Longrightarrow> to_string n v = Inl TypeError \<or> to_string n v = Inl RangeError"
  using to_string_stringable(1) by blast

lemma String_total: "stringable n v \<Longrightarrow> \<exists>s. String n v = Inr (Str s)"
  by (auto simp: String_def dest: to_string_total)

lemma String_fails:
  "\<not> stringable n v \<Longrightarrow> String n v = Inl TypeError \<or> String n v = Inl RangeError"
  using to_string_fails [of n v] by (auto simp: String_def)

lemma trimmed_or_empty_total: "stringable n x \<Longrightarrow> \<exists>s. trimmed_or_empty n x = Inr (Str s)"
  by (auto simp: trimmed_or_empty_def dest: to_string_total)

lemma nullish_stringable: "nullish x \<Longrightarrow> stringable n x"
  by (cases x) simp_all

lemma trimmed_or_empty_fails:
  "\<not> stringable n x \<Longrightarrow>
     trimmed_or_empty n x = Inl TypeError \<or> trimmed_or_empty n x = Inl RangeError"
  using nullish_stringable [of x n] to_string_fails [of n x]
  by (auto simp: trimmed_or_empty_def)

lemma coerce_var_total:
  assumes "var_stringable n v"
  shows "\<exists>k l p. coerce_var n v =
           Inr (Obj (fmap_of_list [(''key'', Str k), (''label'', Str l), (''placeholder'', p)]))"
proof -
  from assms obtain k l where
    "trimmed_or_empty n (opt_member v ''key'') = Inr (Str k)"
    "trimmed_or_empty n (opt_member v ''label'') = Inr (Str l)"
    by (auto simp: var_stringable_def dest!: trimmed_or_empty_total)
  moreover from assms have "\<exists>s. String n (opt_member v ''placeholder'') = Inr (Str s)"
    by (simp add: var_stringable_def String_total)
  then obtain p where
    "(if \<not> nullish (opt_member v ''placeholder'')
      then String n (opt_member v ''placeholder'') else Inr Undefined) = Inr p"
    by (cases "nullish (opt_member v ''placeholder'')") auto
  ultimately have "coerce_var n v =
      Inr (Obj (fmap_of_list [(''key'', Str k), (''label'', Str l), (''placeholder'', p)]))"
    by (simp add: coerce_var_def)
  then show ?thesis by blast
qed

lemma coerce_var_fails:
  assumes "\<not> var_stringable n v"
  shows "coerce_var n v = Inl TypeError \<or> coerce_var n v = Inl RangeError"
proof (cases "stringable n (opt_member v ''key'')")
  case False
  from trimmed_or_empty_fails [OF this] show ?thesis by (auto simp: coerce_var_def)
next
  case key: True
  then obtain k where k: "trimmed_or_empty n (opt_member v ''key'') = Inr (Str k)"
    by (auto dest: trimmed_or_empty_total)
  show ?thesis
  proof (cases "stringable n (opt_member v ''label'')")
    case False
    from trimmed_or_empty_fails [OF this] k show ?thesis by (auto simp: coerce_var_def)
  next
    case True
    then obtain l where l: "trimmed_or_empty n (opt_member v ''label'') = Inr (Str l)"
      by (auto dest: trimmed_or_empty_total)
    from assms key True have p: "\<not> stringable n (opt_member v ''placeholder'')"
      by (simp add: var_stringable_def)
    then have "\<not> nullish (opt_member v ''placeholder'')"
      using nullish_stringable by blast
    with k l String_fails [OF p] show ?thesis by (auto simp: coerce_var_def)
  qed
qed

lemma normalizeVars_total:
  assumes "vars_stringable n v"
  shows "\<exists>r. normalizeVars n v = Inr r
           \<and> (r = Undefined \<or> (\<exists>ys. r = Arr ys \<and> ys \<noteq> [] \<and> list_all keeps ys))"
proof (cases v)
  case (Arr xs)
  with assms have "\<forall>x\<in>set xs. \<exists>y. coerce_var n x = Inr y"
    by (auto simp: vars_stringable_def list_all_iff dest: coerce_var_total)
  then obtain mapped where "map_throwing (coerce_var n) xs = Inr mapped"
    using map_throwing_total by blast
  with Arr show ?thesis
    by (auto simp: normalizeVars_def Let_def list_all_iff)
qed (simp_all add: normalizeVars_def)

lemma normalizeVars_fails:
  assumes "\<not> vars_stringable n v"
  shows "normalizeVars n v = Inl TypeError \<or> normalizeVars n v = Inl RangeError"
proof -
  from assms obtain xs where v: "v = Arr xs" and "\<not> list_all (var_stringable n) xs"
    by (cases v) (auto simp: vars_stringable_def)
  then obtain x where x: "x \<in> set xs" "\<not> var_stringable n x"
    by (auto simp: list_all_iff)
  from coerce_var_fails [OF x(2)] x(1) have "\<exists>x\<in>set xs. \<exists>e. coerce_var n x = Inl e"
    by auto
  from map_throwing_fails [OF this]
  obtain e y where e: "map_throwing (coerce_var n) xs = Inl e" "y \<in> set xs"
    "coerce_var n y = Inl e"
    by blast
  have "\<not> var_stringable n y"
  proof
    assume "var_stringable n y"
    from coerce_var_total [OF this] e(3) show False by auto
  qed
  from coerce_var_fails [OF this] e(3) have "e = TypeError \<or> e = RangeError" by auto
  moreover from x(1) have "xs \<noteq> []" by auto
  with e(1) have "normalizeVars n v = Inl e" by (simp add: normalizeVars_def v)
  ultimately show ?thesis by blast
qed

lemma normalizeCommands_total:
  assumes "commands_stringable n c"
  shows "\<exists>r. normalizeCommands n c = Inr r"
proof (cases c)
  case (Arr xs)
  with assms have "\<forall>x\<in>set xs. \<exists>y. String n x = Inr y"
    by (auto simp: commands_stringable_def list_all_iff dest: String_total)
  then obtain ys where "map_throwing (String n) xs = Inr ys"
    using map_throwing_total by blast
  with Arr show ?thesis by (simp add: normalizeCommands_def)
qed (simp_all add: normalizeCommands_def)

lemmas stringable_defs = vars_stringable_def var_stringable_def commands_stringable_def

subsection \<open>The handlers\<close>

lemma load_Some_ensure: "load st = Inr steps \<Longrightarrow> readSteps st = (Inr steps, ensureStorage st)"
  by (simp add: readSteps_load)

lemma status_res_json [simp]: "status (res_json code v) = code"
  by (simp add: res_json_def)

lemma body_res_json [simp]: "body (res_json code v) = Some (jsonify v)"
  by (simp add: res_json_def)

lemma new_step_Inr:
  assumes "new_step env t c i n cs vs = Inr step"
  shows "property step ''id'' = Str (newId env)"
    and "property step ''createdAt'' = Str (toISOString env)"
    and "String (String_depth env) t = Inr (property step ''title'')"
    and "String (String_depth env) c = Inr (property step ''category'')"
    and "String (String_depth env) i = Inr (property step ''icon'')"
    and "String (String_depth env) n = Inr (property step ''content'')"
    and "normalizeCommands (String_depth env) cs = Inr (property step ''commands'')"
    and "normalizeVars (String_depth env) vs = Inr (property step ''vars'')"
    and "step \<noteq> Undefined"
  using assms by (auto simp: new_step_def and_then_eq_Inr)

lemma String_Inr_Str: "String n v = Inr w \<Longrightarrow> jsonify w = w"
  by (auto simp: String_def and_then_eq_Inr)

lemma new_step_total:
  assumes "stringable (String_depth env) t" "stringable (String_depth env) c"
    and "stringable (String_depth env) i" "stringable (String_depth env) n"
    and "commands_stringable (String_depth env) cs" "vars_stringable (String_depth env) vs"
  shows "\<exists>step. new_step env t c i n cs vs = Inr step"
proof -
  from assms(1-4) obtain t' c' i' n' where
    "String (String_depth env) t = Inr (Str t')" "String (String_depth env) c = Inr (Str c')"
    "String (String_depth env) i = Inr (Str i')" "String (String_depth env) n = Inr (Str n')"
    by (meson String_total)
  moreover from assms(5) obtain cs' where "normalizeCommands (String_depth env) cs = Inr cs'"
    using normalizeCommands_total by blast
  moreover from assms(6) obtain vs' where "normalizeVars (String_depth env) vs = Inr vs'"
    using normalizeVars_total by blast
  ultimately show ?thesis by (simp add: new_step_def)
qed

lemma post_steps_accepts:
  assumes "b = coalesce req_body (Obj fmempty)"
    and "truthy (property b ''title'')" "truthy (property b ''category'')"
    and "truthy (property b ''icon'')" "truthy (property b ''content'')"
    and "load st = Inr steps"
    and "new_step env (property b ''title'') (property b ''category'') (property b ''icon'')
           (property b ''content'') (property b ''commands'') (property b ''vars'') = Inr step"
    and "\<not> stack_overflow (JSON_depth env) (Arr (step # steps))"
  shows "post_steps env req_body st =
           (Inr (res_json 201 step), Some (JSON_text (Arr (map json_element (step # steps)))))"
proof -
  from assms(8) have "\<not> stack_overflow (JSON_depth env) step"
    by (rule stack_overflow_element) simp
  then show ?thesis
    using assms
    by (simp add: post_steps_def Let_def readSteps_load writeSteps_returns send_json_returns)
qed

lemma get_steps_returns:
  assumes "load st = Inr steps" "\<not> stack_overflow (JSON_depth env) (Arr steps)"
  shows "get_steps env st = (Inr (res_json 200 (Arr steps)), ensureStorage st)"
  using assms by (simp add: get_steps_def readSteps_load send_json_returns)

lemma status_res_send [simp]: "status (res_send code) = code"
  by (simp add: res_send_def)

lemma fmlookup_merged:
  "fmlookup (merged env ident existing patch) k =
     (if k = ''updatedAt'' then Some (Str (toISOString env))
      else if k = ''id'' then Some (Str ident)
      else if k |\<in>| fmdom (spread patch) then fmlookup (spread patch) k
      else fmlookup (spread existing) k)"
  by (simp add: merged_def)

lemma renormalize_Inr:
  assumes "renormalize n m = Inr m'"
  shows "k \<noteq> ''commands'' \<Longrightarrow> k \<noteq> ''vars'' \<Longrightarrow> fmlookup m' k = fmlookup m k"
    and "normalizeCommands n (property (Obj m) ''commands'') = Inr (property (Obj m') ''commands'')"
    and "normalizeVars n (property (Obj m) ''vars'') = Inr (property (Obj m') ''vars'')"
proof -
  from assms obtain m1 where
    m1: "(if property (Obj m) ''commands'' \<noteq> Undefined
          then and_then (normalizeCommands n (property (Obj m) ''commands''))
                 (\<lambda>cs. Inr (fmupd ''commands'' cs m))
          else Inr m) = Inr m1"
    and m': "(if property (Obj m1) ''vars'' \<noteq> Undefined
          then and_then (normalizeVars n (property (Obj m1) ''vars''))
                 (\<lambda>vs. Inr (fmupd ''vars'' vs m1))
          else Inr m1) = Inr m'"
    by (auto simp: renormalize_def and_then_eq_Inr)
  have c: "normalizeCommands n (property (Obj m) ''commands'') = Inr (property (Obj m1) ''commands'')"
    using m1 by (auto simp: and_then_eq_Inr normalizeCommands_def split: if_splits)
  have v1: "property (Obj m1) ''vars'' = property (Obj m) ''vars''"
    using m1 by (auto simp: and_then_eq_Inr split: if_splits)
  have other1: "k \<noteq> ''commands'' \<Longrightarrow> fmlookup m1 k = fmlookup m k" for k
    using m1 by (auto simp: and_then_eq_Inr split: if_splits)
  have other2: "k \<noteq> ''vars'' \<Longrightarrow> fmlookup m' k = fmlookup m1 k" for k
    using m' by (auto simp: and_then_eq_Inr split: if_splits)
  show "k \<noteq> ''commands'' \<Longrightarrow> k \<noteq> ''vars'' \<Longrightarrow> fmlookup m' k = fmlookup m k"
    by (simp add: other1 other2)
  show "normalizeCommands n (property (Obj m) ''commands'') = Inr (property (Obj m') ''commands'')"
    using c other2 [of "''commands''"] by simp
  show "normalizeVars n (property (Obj m) ''vars'') = Inr (property (Obj m') ''vars'')"
    using m' v1 by (auto simp: and_then_eq_Inr normalizeVars_def split: if_splits)
qed

lemma renormalize_total:
  assumes "commands_stringable n (property (Obj m) ''commands'')"
    and "vars_stringable n (property (Obj m) ''vars'')"
  shows "\<exists>m'. renormalize n m = Inr m'"
proof -
  from assms(1) obtain cs where cs: "normalizeCommands n (property (Obj m) ''commands'') = Inr cs"
    using normalizeCommands_total by blast
  define m1 where
    "m1 = (if property (Obj m) ''commands'' \<noteq> Undefined then fmupd ''commands'' cs m else m)"
  have s1: "(if property (Obj m) ''commands'' \<noteq> Undefined
             then and_then (normalizeCommands n (property (Obj m) ''commands''))
                    (\<lambda>cs. Inr (fmupd ''commands'' cs m))
             else Inr m) = Inr m1"
    using cs by (simp add: m1_def)
  have "property (Obj m1) ''vars'' = property (Obj m) ''vars''"
    by (simp add: m1_def)
  with assms(2) obtain vs where vs: "normalizeVars n (property (Obj m1) ''vars'') = Inr vs"
    using normalizeVars_total by metis
  have "\<exists>m'. (if property (Obj m1) ''vars'' \<noteq> Undefined
              then and_then (normalizeVars n (property (Obj m1) ''vars''))
                     (\<lambda>vs. Inr (fmupd ''vars'' vs m1))
              else Inr m1) = Inr m'"
    by (metis vs and_then_Inr)
  then show ?thesis
    by (simp only: renormalize_def s1 and_then_Inr)
qed

lemma send_json_Inr: "send_json env code v = Inr r \<Longrightarrow> r = res_json code v"
  by (auto simp: send_json_def split: if_splits)

lemma writeSteps_Inr:
  "writeSteps depth steps st = (Inr u, st') \<Longrightarrow>
     st' = Some (JSON_text (Arr (map json_element steps))) \<and> \<not> stack_overflow depth (Arr steps)"
  using writeSteps_cases [of depth steps st] by auto

lemma put_steps_200:
  assumes "put_steps env ident req_body st = (Inr r, st')" "status r = 200"
  shows "\<exists>steps idx m. load st = Inr steps
           \<and> findIndex (has_id ident) steps = Inr (Some idx)
           \<and> renormalize (String_depth env)
                (merged env ident (steps ! idx) (coalesce req_body (Obj fmempty))) = Inr m
           \<and> r = res_json 200 (Obj m)
           \<and> \<not> stack_overflow (JSON_depth env) (Arr (steps[idx := Obj m]))
           \<and> st' = Some (JSON_text (Arr (map json_element (steps[idx := Obj m]))))"
  using assms
  by (auto simp: put_steps_def readSteps_load Let_def
      dest!: writeSteps_Inr send_json_Inr
      split: sum.splits option.splits if_splits prod.splits)

lemma put_steps_accepts:
  assumes "load st = Inr steps"
    and "findIndex (has_id ident) steps = Inr (Some idx)"
    and "m = merged env ident (steps ! idx) (coalesce req_body (Obj fmempty))"
    and "truthy (property (Obj m) ''title'')" "truthy (property (Obj m) ''category'')"
    and "truthy (property (Obj m) ''icon'')" "truthy (property (Obj m) ''content'')"
    and "renormalize (String_depth env) m = Inr m'"
    and "\<not> stack_overflow (JSON_depth env) (Arr (steps[idx := Obj m']))"
  shows "put_steps env ident req_body st =
           (Inr (res_json 200 (Obj m')),
            Some (JSON_text (Arr (map json_element (steps[idx := Obj m'])))))"
proof -
  from findIndex_Some [OF assms(2)] have "idx < length steps" by simp
  then have "Obj m' \<in> set (steps[idx := Obj m'])"
    by (simp add: set_update_memI)
  with assms(9) have "\<not> stack_overflow (JSON_depth env) (Obj m')"
    by (rule stack_overflow_element)
  then show ?thesis
    using assms
    by (simp add: put_steps_def readSteps_load Let_def writeSteps_returns send_json_returns)
qed

lemma json_exact_Obj:
  "json_exact (Obj m) \<longleftrightarrow> (\<forall>k v. fmlookup m k = Some v \<longrightarrow> json_exact v)"
  by (auto simp: json_exact.simps fmpred_iff)

lemma json_exact_jsonify: "json_exact v \<Longrightarrow> jsonify v = v"
proof (induction v)
  case (Arr xs)
  then have "\<forall>x\<in>set xs. jsonify x = x \<and> x \<noteq> Undefined"
    by (auto simp: list_all_iff)
  then have "map (\<lambda>y. if y = Undefined then Null else y) (map jsonify xs) = map (\<lambda>x. x) xs"
    unfolding map_map by (intro map_cong) auto
  then show ?case by simp
next
  case (Obj m)
  have keep: "fmlookup m k \<noteq> Some Undefined" for k
  proof
    assume "fmlookup m k = Some Undefined"
    with Obj.prems have "json_exact Undefined"
      unfolding json_exact_Obj by blast
    then show False by simp
  qed
  have "fmlookup (fmfilter (\<lambda>k. fmlookup m k \<noteq> Some Undefined) (fmmap jsonify m)) k
      = fmlookup m k" for k
  proof (cases "fmlookup m k")
    case None
    then show ?thesis by simp
  next
    case (Some v)
    then have "v \<in> fmran' m" by (rule fmran'I)
    moreover from Some Obj.prems have "json_exact v"
      unfolding json_exact_Obj by blast
    ultimately have "jsonify v = v" by (rule Obj.IH)
    with Some keep [of k] show ?thesis by simp
  qed
  then have "fmfilter (\<lambda>k. fmlookup m k \<noteq> Some Undefined) (fmmap jsonify m) = m"
    by (rule fmap_ext)
  then show ?case by (simp del: fmfilter_fmmap)
qed simp_all

lemma jsonify_fixed_exact: "jsonify v = v \<Longrightarrow> v \<noteq> Undefined \<Longrightarrow> json_exact v"
proof (induction v)
  case (Num n)
  then show ?case by (auto split: if_splits)
next
  case (Arr xs)
  from Arr.prems(1) have "map (\<lambda>x. if jsonify x = Undefined then Null else jsonify x) xs
      = map (\<lambda>x. x) xs"
    by (simp add: comp_def)
  then have fixed: "\<forall>x\<in>set xs. (if jsonify x = Undefined then Null else jsonify x) = x"
    unfolding map_eq_conv .
  have "json_exact x" if "x \<in> set xs" for x
  proof -
    from fixed that have x: "(if jsonify x = Undefined then Null else jsonify x) = x"
      by blast
    then have "x \<noteq> Undefined" by (auto split: if_splits)
    moreover with x have "jsonify x = x" by simp
    ultimately show ?thesis using that by (intro Arr.IH)
  qed
  then show ?case by (simp add: list_all_iff)
next
  case (Obj m)
  let ?m' = "fmfilter (\<lambda>k. fmlookup m k \<noteq> Some Undefined) (fmmap jsonify m)"
  from Obj.prems(1) have m': "?m' = m"
    by (simp del: fmfilter_fmmap)
  have "json_exact v" if "fmlookup m k = Some v" for k v
  proof -
    from that have look: "fmlookup ?m' k = (if v = Undefined then None else Some (jsonify v))"
      by simp
    with m' that have "v \<noteq> Undefined" "jsonify v = v"
      by (auto split: if_splits)
    moreover from that have "v \<in> fmran' m" by (rule fmran'I)
    ultimately show ?thesis by (intro Obj.IH)
  qed
  then show ?case by (simp add: json_exact_Obj)
qed simp_all

lemma json_exact_json_element: "json_exact v \<Longrightarrow> json_element v = v"
  by (auto simp: json_element_def json_exact_jsonify)

lemma json_element_fixed_iff: "json_element v = v \<longleftrightarrow> json_exact v"
proof
  assume fixed: "json_element v = v"
  then have "v \<noteq> Undefined" by (auto simp: json_element_def)
  with fixed show "json_exact v"
    by (intro jsonify_fixed_exact) (simp_all add: json_element_def)
qed (rule json_exact_json_element)

lemma post_steps_201:
  assumes "post_steps env req_body st = (Inr r, st')" "status r = 201"
  shows "\<exists>step. body r = Some step \<and> property step ''id'' = Str (newId env)"
proof -
  from assms obtain t c i n cs vs step0 where
    "new_step env t c i n cs vs = Inr step0" "r = res_json 201 step0"
    by (auto simp: post_steps_def readSteps_load Let_def dest!: send_json_Inr
        split: if_splits sum.splits prod.splits)
  then show ?thesis
    by (simp add: jsonify_property new_step_Inr(1))
qed

lemma property_Obj: "property e k \<noteq> Undefined \<Longrightarrow> \<exists>m. e = Obj m"
  by (cases e) simp_all

lemma not_has_id:
  "\<not> nullish s \<Longrightarrow>
     and_then (has_id ident s) (\<lambda>b. Inr (\<not> b)) = Inr (property s ''id'' \<noteq> Str ident)"
  by (simp add: has_id_def member_def)

lemma delete_steps_records:
  assumes "load st = Inr steps" "list_all (\<lambda>s. \<not> nullish s) steps"
  shows "delete_steps env ident st =
           (if length (filter (\<lambda>s. property s ''id'' \<noteq> Str ident) steps) = length steps
            then (Inr (res_json 404 not_found_message), ensureStorage st)
            else (case writeSteps (JSON_depth env)
                         (filter (\<lambda>s. property s ''id'' \<noteq> Str ident) steps)
                         (ensureStorage st) of
                    (Inl e, st2) \<Rightarrow> (Inl e, st2)
                  | (Inr u, st2) \<Rightarrow> (Inr (res_send 204), st2)))"
proof -
  let ?p = "\<lambda>s. and_then (has_id ident s) (\<lambda>b. Inr (\<not> b))"
  from assms(2) have total: "\<forall>s\<in>set steps. ?p s = Inr (property s ''id'' \<noteq> Str ident)"
    by (simp add: list_all_iff not_has_id)
  then have "\<forall>s\<in>set steps. \<exists>b. ?p s = Inr b" by blast
  then have "filter_throwing ?p steps = Inr (filter (\<lambda>s. ?p s = Inr True) steps)"
    by (rule filter_throwing_total)
  also have "filter (\<lambda>s. ?p s = Inr True) steps
      = filter (\<lambda>s. property s ''id'' \<noteq> Str ident) steps"
    using total by (intro filter_cong) auto
  finally show ?thesis
    using assms(1) by (simp add: delete_steps_def readSteps_load)
qed

lemma filter_throwing_raises:
  "x \<in> set xs \<Longrightarrow> p x = Inl e \<Longrightarrow> \<forall>y\<in>set xs. p y = Inl e \<or> (\<exists>b. p y = Inr b) \<Longrightarrow>
     filter_throwing p xs = Inl e"
proof (induction xs)
  case Nil
  then show ?case by simp
next
  case (Cons y ys)
  show ?case
  proof (cases "p y")
    case (Inl e')
    with Cons.prems(3) show ?thesis by auto
  next
    case (Inr b)
    with Cons.prems have "x \<in> set ys" by auto
    with Cons have "filter_throwing p ys = Inl e" by auto
    with Inr show ?thesis by simp
  qed
qed

lemma delete_steps_raises:
  assumes "load st = Inr steps" "\<not> list_all (\<lambda>s. \<not> nullish s) steps"
  shows "delete_steps env ident st = (Inl TypeError, ensureStorage st)"
proof -
  let ?p = "\<lambda>s. and_then (has_id ident s) (\<lambda>b. Inr (\<not> b))"
  from assms(2) obtain x where x: "x \<in> set steps" "nullish x"
    by (auto simp: list_all_iff)
  then have "?p x = Inl TypeError"
    by (simp add: has_id_def member_def)
  moreover have "\<forall>y\<in>set steps. ?p y = Inl TypeError \<or> (\<exists>b. ?p y = Inr b)"
    by (simp add: has_id_def member_def)
  ultimately have "filter_throwing ?p steps = Inl TypeError"
    using x(1) by (intro filter_throwing_raises)
  with assms(1) show ?thesis
    by (simp add: delete_steps_def readSteps_load)
qed

lemma filter_length_eq_iff: "length (filter P xs) = length xs \<longleftrightarrow> (\<forall>x\<in>set xs. P x)"
proof
  assume "length (filter P xs) = length xs"
  then show "\<forall>x\<in>set xs. P x"
    using length_filter_less [of _ xs P] by fastforce
next
  assume "\<forall>x\<in>set xs. P x"
  then have "filter P xs = xs" by (simp add: filter_id_conv)
  then show "length (filter P xs) = length xs" by simp
qed

lemma remove_the_one:
  "distinct (map f xs) \<Longrightarrow> i < length xs \<Longrightarrow>
     filter (\<lambda>x. f x \<noteq> f (xs ! i)) xs = take i xs @ drop (Suc i) xs"
proof (induction xs arbitrary: i)
  case Nil
  then show ?case by simp
next
  case (Cons x xs)
  show ?case
  proof (cases i)
    case 0
    from Cons.prems have "f x \<notin> f ` set xs" by simp
    then have "\<forall>y\<in>set xs. f y \<noteq> f x" by (metis image_eqI)
    then have "filter (\<lambda>y. f y \<noteq> f x) xs = xs" by (simp add: filter_id_conv)
    with 0 show ?thesis by simp
  next
    case (Suc i')
    with Cons.prems have "f x \<noteq> f (xs ! i')" by auto
    with Suc Cons show ?thesis by simp
  qed
qed

lemma filter_json_element:
  assumes "list_all (\<lambda>s. \<not> nullish s) steps"
  shows "filter (\<lambda>s. property s ''id'' \<noteq> Str ident) (map json_element steps)
           = map json_element (filter (\<lambda>s. property s ''id'' \<noteq> Str ident) steps)"
  using assms
  by (induction steps) (simp_all add: property_json_element)

lemma res_json_not_found:
  "res_json 404 not_found_message = \<lparr>status = 404, body = Some not_found_message\<rparr>"
  by (simp add: res_json_def not_found_message_def fmmap_fmupd)

lemma rejected_leaves_storage:
  assumes "handle env req st = (Inr r, st')" and "status r = 400 \<or> status r = 404"
  shows "load st' = load st \<and> (st' = st \<or> st' = ensureStorage st)"
proof (cases req)
  case GET_health
  with assms show ?thesis by (auto simp: get_health_def)
next
  case GET_steps
  with assms show ?thesis
    by (auto simp: get_steps_def readSteps_load split: sum.splits)
next
  case (POST_steps b)
  with assms show ?thesis
    by (auto simp: post_steps_def readSteps_load Let_def dest!: send_json_status
        split: sum.splits if_splits prod.splits)
next
  case (PUT_steps ident b)
  with assms show ?thesis
    by (auto simp: put_steps_def readSteps_load Let_def dest!: send_json_status
        split: sum.splits option.splits if_splits prod.splits)
next
  case (DELETE_steps ident)
  with assms show ?thesis
    by (auto simp: delete_steps_def readSteps_load res_send_def
        split: sum.splits if_splits prod.splits)
qed

lemma post_steps_rejects:
  "\<not> required_present (coalesce b (Obj fmempty)) \<Longrightarrow>
     post_steps env b st = (Inr (res_json 400 required_message), st)"
  by (auto simp: post_steps_def required_present_def Let_def)

lemma put_steps_not_found:
  assumes "load st = Inr steps"
    and "list_all (\<lambda>s. \<not> nullish s \<and> property s ''id'' \<noteq> Str ident) steps"
  shows "put_steps env ident b st = (Inr (res_json 404 not_found_message), ensureStorage st)"
proof -
  from assms(2) have "\<forall>s\<in>set steps. has_id ident s = Inr False"
    by (simp add: list_all_iff has_id_Inr)
  then have "findIndex (has_id ident) steps = Inr None"
    by (rule findIndex_absent)
  with assms(1) show ?thesis
    by (simp add: put_steps_def readSteps_load)
qed

lemma delete_steps_not_found:
  assumes "load st = Inr steps"
    and "list_all (\<lambda>s. \<not> nullish s \<and> property s ''id'' \<noteq> Str ident) steps"
  shows "delete_steps env ident st = (Inr (res_json 404 not_found_message), ensureStorage st)"
proof -
  from assms(2) have "list_all (\<lambda>s. \<not> nullish s) steps"
    and "length (filter (\<lambda>s. property s ''id'' \<noteq> Str ident) steps) = length steps"
    by (simp_all add: list_all_iff filter_length_eq_iff)
  with delete_steps_records [OF assms(1), of env ident] show ?thesis
    by simp
qed

lemma put_steps_rejects:
  assumes "load st = Inr steps"
    and "findIndex (has_id ident) steps = Inr (Some idx)"
    and "\<not> required_present (Obj (merged env ident (steps ! idx) (coalesce b (Obj fmempty))))"
  shows "put_steps env ident b st = (Inr (res_json 400 required_message), ensureStorage st)"
  using assms
  by (auto simp: put_steps_def readSteps_load required_present_def Let_def
      simp del: property.simps)

subsection \<open>The normalizer of the spec\<close>

lemma to_string_spec:
  "stringable n v \<longrightarrow> to_string n v = Inr (spec_string v)"
  "stringable_elements n xs \<longrightarrow> join n xs = Inr (spec_join xs)"
  by (induction n v and n xs rule: to_string_join.induct) auto

lemma trimmed_or_empty_spec:
  "stringable n x \<Longrightarrow> trimmed_or_empty n x = Inr (Str (spec_text x))"
  by (simp add: trimmed_or_empty_def spec_text_def to_string_spec)

lemma coerce_var_spec:
  "var_stringable n v \<Longrightarrow> coerce_var n v = Inr (js_of_vardef (spec_coerce v))"
  by (simp add: coerce_var_def var_stringable_def trimmed_or_empty_spec String_def
      to_string_spec spec_coerce_def js_of_vardef_def)

lemma map_coerce_var_spec:
  "list_all (var_stringable n) xs \<Longrightarrow>
     map_throwing (coerce_var n) xs = Inr (map js_of_vardef (map spec_coerce xs))"
  by (induction xs) (simp_all add: coerce_var_spec)

lemma keeps_js_of_vardef: "keeps (js_of_vardef d) \<longleftrightarrow> key d \<noteq> [] \<and> label d \<noteq> []"
  by (simp add: keeps_def js_of_vardef_def)

lemma filter_keeps_spec:
  "filter keeps (map js_of_vardef ds) =
     map js_of_vardef (filter (\<lambda>d. key d \<noteq> [] \<and> label d \<noteq> []) ds)"
  by (induction ds) (simp_all add: keeps_js_of_vardef)

lemma normalizeVars_kept:
  assumes "list_all (var_stringable n) xs" "xs \<noteq> []"
  shows "normalizeVars n (Arr xs) =
           Inr (let kept = filter (\<lambda>d. key d \<noteq> [] \<and> label d \<noteq> []) (map spec_coerce xs)
                in if kept = [] then Undefined else Arr (map js_of_vardef kept))"
  using assms(2)
  by (simp add: normalizeVars_def map_coerce_var_spec [OF assms(1)] filter_keeps_spec Let_def
      del: map_map)

lemma normalizeVars_spec:
  assumes "vars_stringable n v"
  shows "normalizeVars n v = Inr (js_of_vardefs (spec_normalizeVars v))"
proof (cases v)
  case (Arr xs)
  show ?thesis
  proof (cases xs)
    case Nil
    with Arr show ?thesis
      by (simp add: normalizeVars_def spec_normalizeVars_def js_of_vardefs_def)
  next
    case (Cons y ys)
    from assms Arr have "list_all (var_stringable n) xs"
      by (simp add: vars_stringable_def)
    moreover from Cons have "xs \<noteq> []" by simp
    ultimately have "normalizeVars n (Arr xs) =
        Inr (let kept = filter (\<lambda>d. key d \<noteq> [] \<and> label d \<noteq> []) (map spec_coerce xs)
             in if kept = [] then Undefined else Arr (map js_of_vardef kept))"
      by (rule normalizeVars_kept)
    moreover have "spec_normalizeVars v =
        (let kept = filter (\<lambda>d. key d \<noteq> [] \<and> label d \<noteq> []) (map spec_coerce xs)
         in if kept = [] then None else Some kept)"
      by (simp add: spec_normalizeVars_def Arr Cons)
    ultimately show ?thesis
      by (simp add: Arr js_of_vardefs_def Let_def)
  qed
qed (simp_all add: normalizeVars_def spec_normalizeVars_def js_of_vardefs_def)

subsection \<open>The stored examples\<close>

lemma load_storage1: "load storage1 = Inr [record1]"
  by (simp add: storage1_def)

lemma load_storage2: "load storage2 = Inr [record2, record1]"
  by (simp add: storage2_def)

lemma env2_depth: "String_depth env2 = 3000" "JSON_depth env2 = 3000"
  by (simp_all add: env2_def)

lemma newId_env2: "newId env2 = ''1700000000000-c41''"
  by (simp add: newId_def env2_def show_nat.simps digit_def)

lemma record1_exact: "json_element record1 = record1"
  by (rule json_exact_json_element) (simp add: record1_def json_exact_Obj)

lemma record2_exact: "json_element record2 = record2"
  by (rule json_exact_json_element) (simp add: record2_def json_exact_Obj)

lemma record1_fits: "nested_within record1 3000"
  by (simp add: record1_def nested_within_Obj)

lemma record2_fits: "nested_within record2 3000"
  by (simp add: record2_def nested_within_Obj)

lemma post_steps_env1: "\<exists>r st'. post_steps env1 body1 None = (Inr r, st') \<and> status r = 201"
  by (simp add: handler_defs body1_def env1_depth)

lemma post_steps_env2: "\<exists>r st'. post_steps env2 body1 storage1 = (Inr r, st') \<and> status r = 201"
  by (simp add: handler_defs body1_def storage1_def record1_def env2_depth)

lemma put_steps_storage2:
  "\<exists>r st'. put_steps env1 ''1700000000000-8f3c''
      (Obj (fmap_of_list [(''title'', Str ''Move''), (''id'', Str ''other'')])) storage2
        = (Inr r, st') \<and> status r = 200"
  by (simp add: handler_defs storage2_def record1_def record2_def env1_depth)

section \<open>The claims\<close>

subsection \<open>C1: required fields of a persisted step\<close>

text \<open>
  C1 states that every step in the persisted collection has non-empty strings as \<^verbatim>\<open>title\<close>,
  \<^verbatim>\<open>category\<close>, \<^verbatim>\<open>icon\<close> and \<^verbatim>\<open>content\<close>, whatever sequence of create, update and
  delete operations led to it from the empty collection. The create handler converts the
  four fields with \<^verbatim>\<open>String\<close>; the update handler tests the merged record for truthiness
  and stores the fields as the patch gave them. Starting from no file, a create followed
  by an update with the patch \<^verbatim>\<open>{"title": 5}\<close> leaves a record whose title is the number 5.
  The create handler tests truthiness before it converts: the title \<^verbatim>\<open>[]\<close> is truthy and
  \<^verbatim>\<open>String([])\<close> is the empty string, which is stored.
\<close>

theorem put_steps_stores_number_as_title:
  "stored_field ''title''
     (snd (put_steps env1 (newId env1) (Obj (fmap_of_list [(''title'', Num ''5'')]))
        (snd (post_steps env1 body1 None)))) = Inr [Num ''5'']
   \<and> stored_field ''title''
     (snd (post_steps env1 (Obj (fmap_of_list
        [(''title'', Arr []), (''category'', Str ''files''), (''icon'', Str ''copy''),
         (''content'', Str ''Copy the file'')])) None)) = Inr [Str []]"
  by (simp add: handler_defs body1_def newId_env1 env1_depth)

text \<open>The title of the stored record is no string.\<close>

theorem put_steps_stores_number_as_title_witness:
  "\<forall>s. stored_field ''title''
     (snd (put_steps env1 (newId env1) (Obj (fmap_of_list [(''title'', Num ''5'')]))
        (snd (post_steps env1 body1 None)))) \<noteq> Inr [Str s]"
  using put_steps_stores_number_as_title by simp

subsection \<open>C2: loading a document that is not a sequence\<close>

text \<open>
  C2 states that load returns an empty sequence, instead of failing, for every stored
  content that is not a well-formed sequence of records, corrupted content included.
  What the code does: a text that is not JSON makes \<^verbatim>\<open>JSON.parse\<close> throw, and
  \<open>readSteps\<close> fails with that SyntaxError; an absent file and a document that parses to
  anything but an array give the empty sequence; an array is returned as parsed, whatever
  its elements are.
\<close>

theorem load_falls_back_on_non_array:
  "load (Some NotJSON) = Inl SyntaxError
   \<and> load None = Inr []
   \<and> (\<not> isArray v \<longrightarrow> load (Some (JSON_text v)) = Inr [])
   \<and> load (Some (JSON_text (Arr xs))) = Inr xs"
proof -
  have "\<not> isArray v \<Longrightarrow> load (Some (JSON_text v)) = Inr []"
    by (cases v) (simp_all add: handler_defs)
  then show ?thesis
    by (simp add: handler_defs)
qed

text \<open>The claim as stated fails on a corrupted document: load fails there.\<close>

theorem load_fails_on_corrupted_document:
  "load (Some NotJSON) = Inl SyntaxError"
  by (simp add: handler_defs)

text \<open>An object is not an array; an array of anything is returned as it parses.\<close>

theorem load_falls_back_on_non_array_witness:
  "\<not> isArray (Obj (fmap_of_list [(''steps'', Arr [])]))
   \<and> load (Some (JSON_text (Obj (fmap_of_list [(''steps'', Arr [])])))) = Inr []
   \<and> load (Some (JSON_text (Arr [Num ''1'', Null]))) = Inr [Num ''1'', Null]"
  using load_falls_back_on_non_array [of "Obj (fmap_of_list [(''steps'', Arr [])])" "[Num ''1'', Null]"]
  by simp

subsection \<open>C3: what normalizeVars computes\<close>

text \<open>
  C3 states that, for every input, \<open>normalizeVars\<close> returns absent when its input is not a
  non-empty sequence; that otherwise it stringifies and trims the key and the label of each
  element (the empty string when they are null or absent), stringifies the placeholder when
  there is one and leaves it absent otherwise, discards the elements whose trimmed key or
  label is empty, keeps the order of the others, and returns absent when none is left; and
  that \<^verbatim>\<open>[{key:"p",label:"Path"},{key:"",label:"x"}]\<close> yields \<^verbatim>\<open>[{key:"p",label:"Path"}]\<close>.
  What the code does: on every input whose keys, labels and placeholders \<^verbatim>\<open>String\<close>
  converts (\<open>vars_stringable\<close>: none is, or holds in nested arrays, an object with an own
  property \<^verbatim>\<open>toString\<close>, and none is an array nested deeper than the call stack admits)
  it returns what \<open>spec_normalizeVars\<close>, the function written from these words, returns. On
  an input that is not a non-empty sequence both return absent. A placeholder that is
  \<^verbatim>\<open>null\<close> counts as absent. On the example the result holds one element with key
  \<^verbatim>\<open>p\<close>, label \<^verbatim>\<open>Path\<close> and no placeholder, stored as \<^verbatim>\<open>[{key:"p",label:"Path"}]\<close>.
\<close>

theorem normalizeVars_refines_spec:
  "(vars_stringable depth v \<longrightarrow>
      normalizeVars depth v = Inr (js_of_vardefs (spec_normalizeVars v)))
   \<and> (\<not> isArray v \<or> v = Arr [] \<longrightarrow>
        normalizeVars depth v = Inr Undefined \<and> spec_normalizeVars v = None)
   \<and> (v = Arr xs \<and> xs \<noteq> [] \<and> vars_stringable depth v \<longrightarrow>
        normalizeVars depth v =
          Inr (let kept = filter (\<lambda>d. key d \<noteq> [] \<and> label d \<noteq> []) (map spec_coerce xs)
               in if kept = [] then Undefined else Arr (map js_of_vardef kept)))
   \<and> vars_stringable depth vars_example
   \<and> spec_normalizeVars vars_example
       = Some [\<lparr>key = ''p'', label = ''Path'', placeholder = None\<rparr>]
   \<and> and_then (normalizeVars depth vars_example) (\<lambda>r. Inr (jsonify r))
       = Inr (Arr [Obj (fmap_of_list [(''key'', Str ''p''), (''label'', Str ''Path'')])])"
proof -
  have absent: "normalizeVars depth v = Inr Undefined \<and> spec_normalizeVars v = None"
    if "\<not> isArray v \<or> v = Arr []"
    using that by (cases v) (auto simp: normalizeVars_def spec_normalizeVars_def)
  have kept: "normalizeVars depth v =
      Inr (let kept = filter (\<lambda>d. key d \<noteq> [] \<and> label d \<noteq> []) (map spec_coerce xs)
           in if kept = [] then Undefined else Arr (map js_of_vardef kept))"
    if "v = Arr xs" "xs \<noteq> []" "vars_stringable depth v"
    using that normalizeVars_kept [of depth xs] by (simp add: vars_stringable_def)
  have ok: "vars_stringable depth vars_example"
    by (simp add: stringable_defs vars_example_def opt_member_def)
  have spec: "spec_normalizeVars vars_example
      = Some [\<lparr>key = ''p'', label = ''Path'', placeholder = None\<rparr>]"
    by (simp add: spec_normalizeVars_def spec_coerce_def spec_text_def vars_example_def
        opt_member_def trim_def is_space_def)
  then have stored: "and_then (normalizeVars depth vars_example) (\<lambda>r. Inr (jsonify r))
      = Inr (Arr [Obj (fmap_of_list [(''key'', Str ''p''), (''label'', Str ''Path'')])])"
    by (simp add: normalizeVars_spec [OF ok] js_of_vardefs_def js_of_vardef_def fmmap_fmupd)
  from absent kept ok spec stored show ?thesis
    using normalizeVars_spec by blast
qed

text \<open>
  The claim as stated fails on \<^verbatim>\<open>[{"key": {"toString": 1}, "label": "Path"}]\<close>: the
  function of the spec returns a sequence of one element, the code raises a TypeError.
\<close>

theorem normalizeVars_differs_from_spec_on_own_toString:
  "(\<forall>depth. normalizeVars depth vars_with_own_toString = Inl TypeError)
   \<and> spec_normalizeVars vars_with_own_toString
       = Some [\<lparr>key = ''[object Object]'', label = ''Path'', placeholder = None\<rparr>]"
  by (simp add: handler_defs vars_with_own_toString_def spec_normalizeVars_def
      spec_coerce_def spec_text_def)

text \<open>
  On an element with a number as key, a label to trim and a boolean placeholder; on a
  string; on two elements that are both discarded:
\<close>

theorem normalizeVars_refines_spec_witness:
  "vars_stringable 3000 (Arr [Obj (fmap_of_list [(''key'', Num ''7''), (''label'', Str '' n ''),
       (''placeholder'', Bool True)])])
   \<and> normalizeVars 3000 (Arr [Obj (fmap_of_list [(''key'', Num ''7''), (''label'', Str '' n ''),
       (''placeholder'', Bool True)])])
     = Inr (Arr [Obj (fmap_of_list [(''key'', Str ''7''), (''label'', Str ''n''),
         (''placeholder'', Str ''true'')])])
   \<and> \<not> isArray (Str ''vars'')
   \<and> normalizeVars 3000 (Str ''vars'') = Inr Undefined
   \<and> vars_stringable 3000 (Arr [Null, Obj (fmap_of_list [(''key'', Str ''k'')])])
   \<and> normalizeVars 3000 (Arr [Null, Obj (fmap_of_list [(''key'', Str ''k'')])]) = Inr Undefined"
proof -
  let ?v = "Arr [Obj (fmap_of_list [(''key'', Num ''7''), (''label'', Str '' n ''),
       (''placeholder'', Bool True)])]"
  let ?w = "[Null, Obj (fmap_of_list [(''key'', Str ''k'')])]"
  have v: "vars_stringable 3000 ?v"
    by (simp add: stringable_defs opt_member_def)
  with normalizeVars_refines_spec [of 3000 ?v]
  have "normalizeVars 3000 ?v = Inr (js_of_vardefs (spec_normalizeVars ?v))"
    by blast
  then have 1: "normalizeVars 3000 ?v
     = Inr (Arr [Obj (fmap_of_list [(''key'', Str ''7''), (''label'', Str ''n''),
         (''placeholder'', Str ''true'')])])"
    by (simp add: spec_normalizeVars_def spec_coerce_def spec_text_def opt_member_def trim_def
        is_space_def js_of_vardefs_def js_of_vardef_def)
  have "\<not> isArray (Str ''vars'')" by simp
  with normalizeVars_refines_spec [of 3000 "Str ''vars''"]
  have 2: "normalizeVars 3000 (Str ''vars'') = Inr Undefined"
    by blast
  have w: "vars_stringable 3000 (Arr ?w)"
    by (simp add: stringable_defs opt_member_def)
  moreover have "?w \<noteq> []" by simp
  ultimately have "normalizeVars 3000 (Arr ?w) =
      Inr (let kept = filter (\<lambda>d. key d \<noteq> [] \<and> label d \<noteq> []) (map spec_coerce ?w)
           in if kept = [] then Undefined else Arr (map js_of_vardef kept))"
    using normalizeVars_refines_spec [of 3000 "Arr ?w" ?w] by blast
  then have 3: "normalizeVars 3000 (Arr ?w) = Inr Undefined"
    by (simp add: spec_coerce_def spec_text_def opt_member_def)
  from v 1 2 w 3 show ?thesis by simp
qed

subsection \<open>C4: creating a step\<close>




subsection \<open>C5: the merge of an update\<close>




subsection \<open>C6: rejected requests\<close>

text \<open>
  C6 states that a request that fails (a create without a required field, answered 400; an
  update or a delete of an id that does not exist, answered 404; an update whose merged
  record fails the required-field check, answered 400) leaves the persisted collection
  unchanged, no save taking place. First, whatever the request, a handler that answers 400
  or 404 leaves the storage as it was, or as \<open>ensureStorage\<close> made it (the file created
  with the empty sequence when there was none), and what load returns is the same before
  and after. Then the failures the claim names are answered so: a create without a truthy
  required field, 400, the storage untouched; an update and a delete of an id that no
  record of the loaded collection has, 404; an update whose merged record fails the check,
  400; the three after \<open>readSteps\<close> and before any \<open>writeSteps\<close>.
\<close>

theorem failed_requests_leave_storage:
  "(handle env req st = (Inr r, st') \<and> (status r = 400 \<or> status r = 404) \<longrightarrow>
      load st' = load st \<and> (st' = st \<or> st' = ensureStorage st))
   \<and> (\<not> required_present (coalesce b (Obj fmempty)) \<longrightarrow>
        handle env (POST_steps b) st = (Inr (res_json 400 required_message), st))
   \<and> (load st = Inr steps
        \<and> list_all (\<lambda>s. \<not> nullish s \<and> property s ''id'' \<noteq> Str ident) steps \<longrightarrow>
        handle env (PUT_steps ident b) st
          = (Inr (res_json 404 not_found_message), ensureStorage st)
        \<and> handle env (DELETE_steps ident) st
          = (Inr (res_json 404 not_found_message), ensureStorage st))
   \<and> (load st = Inr steps \<and> findIndex (has_id ident) steps = Inr (Some idx)
        \<and> \<not> required_present
              (Obj (merged env ident (steps ! idx) (coalesce b (Obj fmempty)))) \<longrightarrow>
        handle env (PUT_steps ident b) st
          = (Inr (res_json 400 required_message), ensureStorage st))"
  using rejected_leaves_storage [of env req st r st']
    post_steps_rejects [of b env st]
    put_steps_not_found [of st steps ident env b]
    delete_steps_not_found [of st steps ident env]
    put_steps_rejects [of st steps ident idx env b]
  by simp

text \<open>
  An update of an unknown id without a file; a create with a title only; a delete of an
  unknown id; an update that empties the title:
\<close>

theorem failed_requests_leave_storage_witness:
  "handle env1 (PUT_steps ''absent'' (Obj fmempty)) None
     = (Inr (res_json 404 not_found_message), Some (JSON_text (Arr [])))
   \<and> load (Some (JSON_text (Arr []))) = load None
   \<and> handle env1 (POST_steps (Obj (fmap_of_list [(''title'', Str ''Copy'')]))) storage1
     = (Inr (res_json 400 required_message), storage1)
   \<and> handle env1 (DELETE_steps ''absent'') storage1
     = (Inr (res_json 404 not_found_message), storage1)
   \<and> handle env1 (PUT_steps ''1700000000000-8f3c'' (Obj (fmap_of_list [(''title'', Str '''')])))
        storage1
     = (Inr (res_json 400 required_message), storage1)"
proof -
  let ?patch = "Obj (fmap_of_list [(''title'', Str '''')])"
  let ?body = "Obj (fmap_of_list [(''title'', Str ''Copy'')])"
  have 1: "load None = Inr []"
    by (simp add: handler_defs)
  have 2: "list_all (\<lambda>s. \<not> nullish s \<and> property s ''id'' \<noteq> Str ''absent'') []"
    by simp
  have 3: "\<not> required_present (coalesce ?body (Obj fmempty))"
    by (simp add: required_present_def coalesce_def)
  have 4: "list_all (\<lambda>s. \<not> nullish s \<and> property s ''id'' \<noteq> Str ''absent'') [record1]"
    by (simp add: record1_def)
  have 5: "findIndex (has_id ''1700000000000-8f3c'') [record1] = Inr (Some 0)"
    by (simp add: has_id_def member_def record1_def)
  have 6: "\<not> required_present
             (Obj (merged env1 ''1700000000000-8f3c'' ([record1] ! 0) (coalesce ?patch (Obj fmempty))))"
    by (simp add: required_present_def merged_def coalesce_def)
  have 7: "ensureStorage None = Some (JSON_text (Arr []))" "ensureStorage storage1 = storage1"
    by (simp_all add: storage_defs storage1_def)
  have a: "handle env1 (PUT_steps ''absent'' (Obj fmempty)) None
     = (Inr (res_json 404 not_found_message), Some (JSON_text (Arr [])))"
    using failed_requests_leave_storage [where st = None and steps = "[]" and ident = "''absent''"
        and env = env1 and b = "Obj fmempty"] 1 2 7
    by simp
  have b: "load (Some (JSON_text (Arr []))) = load None"
    using failed_requests_leave_storage [where st = None and env = env1
        and req = "PUT_steps ''absent'' (Obj fmempty)"
        and r = "res_json 404 not_found_message" and st' = "Some (JSON_text (Arr []))"] a
    by simp
  have c: "handle env1 (POST_steps ?body) storage1 = (Inr (res_json 400 required_message), storage1)"
    using failed_requests_leave_storage [where b = ?body and env = env1 and st = storage1] 3
    by simp
  have d: "handle env1 (DELETE_steps ''absent'') storage1
     = (Inr (res_json 404 not_found_message), storage1)"
    using failed_requests_leave_storage [where st = storage1 and steps = "[record1]"
        and ident = "''absent''" and env = env1] load_storage1 4 7
    by simp
  have e: "handle env1 (PUT_steps ''1700000000000-8f3c'' ?patch) storage1
     = (Inr (res_json 400 required_message), storage1)"
    using failed_requests_leave_storage [where st = storage1 and steps = "[record1]"
        and ident = "''1700000000000-8f3c''" and env = env1 and idx = 0 and b = ?patch]
      load_storage1 5 6 7
    by simp
  from a b c d e show ?thesis by simp
qed

subsection \<open>C7: deleting a step\<close>




subsection \<open>C8: generated ids\<close>

text \<open>
  C8 states that any two create operations receive distinct ids, also within the same
  millisecond, and that an id is never used again. The id is made of the clock value and of
  the hexadecimal digits of a random draw, and of nothing else: the ids of two accepted
  creates differ exactly when their clock values differ or the digits of their draws differ.
\<close>

theorem ids_differ_iff_clock_or_draw_differ:
  assumes "post_steps e1 b1 st1 = (Inr r1, st1')" and "status r1 = 201" and "body r1 = Some s1"
    and "post_steps e2 b2 st2 = (Inr r2, st2')" and "status r2 = 201" and "body r2 = Some s2"
  shows "property s1 ''id'' \<noteq> property s2 ''id'' \<longleftrightarrow>
           Date_now e1 \<noteq> Date_now e2
           \<or> drop 2 (Math_random_16 e1) \<noteq> drop 2 (Math_random_16 e2)"
proof -
  from post_steps_201 [OF assms(1,2)] assms(3) have "property s1 ''id'' = Str (newId e1)"
    by auto
  moreover from post_steps_201 [OF assms(4,5)] assms(6) have "property s2 ''id'' = Str (newId e2)"
    by auto
  ultimately show ?thesis
    by (simp add: newId_eq_iff)
qed

text \<open>
  The claim as stated fails for two creates with the same clock value and the same draw:
  the two stored records have the same id.
\<close>

theorem same_clock_and_draw_give_same_id:
  "stored_field ''id'' (snd (post_steps env1 body1 (snd (post_steps env1 body1 None))))
     = Inr [Str ''1700000000000-8f3c'', Str ''1700000000000-8f3c'']"
  by (simp add: handler_defs body1_def newId_env1 env1_depth)

text \<open>Two creates in the same millisecond with different draws:\<close>

theorem ids_differ_iff_clock_or_draw_differ_witness:
  "\<exists>r1 st1 s1 r2 st2 s2.
     post_steps env1 body1 None = (Inr r1, st1) \<and> status r1 = 201 \<and> body r1 = Some s1
     \<and> post_steps env2 body1 storage1 = (Inr r2, st2) \<and> status r2 = 201 \<and> body r2 = Some s2
     \<and> property s1 ''id'' \<noteq> property s2 ''id''"
proof -
  from post_steps_env1 obtain r1 st1 where
    1: "post_steps env1 body1 None = (Inr r1, st1)" "status r1 = 201"
    by blast
  from post_steps_201 [OF 1] obtain s1 where s1: "body r1 = Some s1"
    by blast
  from post_steps_env2 obtain r2 st2 where
    2: "post_steps env2 body1 storage1 = (Inr r2, st2)" "status r2 = 201"
    by blast
  from post_steps_201 [OF 2] obtain s2 where s2: "body r2 = Some s2"
    by blast
  have "drop 2 (Math_random_16 env1) \<noteq> drop 2 (Math_random_16 env2)"
    by (simp add: env1_def env2_def)
  with ids_differ_iff_clock_or_draw_differ [OF 1 s1 2 s2]
  have "property s1 ''id'' \<noteq> property s2 ''id''"
    by simp
  with 1 2 s1 s2 show ?thesis by blast
qed

subsection \<open>C9: normalizeVars and exceptions\<close>

text \<open>
  C9 states that \<open>normalizeVars\<close> raises no error on any input and always returns absent
  or a filtered sequence. It returns absent or a non-empty sequence of elements with
  non-empty key and label exactly when \<^verbatim>\<open>String\<close> converts the key, the label and the
  placeholder of every element of an input array (none is, or holds in nested arrays, an
  object with an own property \<^verbatim>\<open>toString\<close>, and none is an array nested deeper than the
  call stack admits); on any other input it raises a TypeError or a RangeError.
\<close>

theorem normalizeVars_raises_iff_unconvertible:
  "(vars_stringable depth v \<longrightarrow>
      (\<exists>r. normalizeVars depth v = Inr r
         \<and> (r = Undefined \<or> (\<exists>ys. r = Arr ys \<and> ys \<noteq> [] \<and> list_all keeps ys))))
   \<and> (\<not> vars_stringable depth v \<longrightarrow>
        normalizeVars depth v = Inl TypeError \<or> normalizeVars depth v = Inl RangeError)"
  using normalizeVars_total normalizeVars_fails by blast

text \<open>
  The claim as stated fails on \<^verbatim>\<open>[{"key": {"toString": 1}, "label": "Path"}]\<close>, where the
  conversion of the key raises a TypeError, whatever the call stack admits.
\<close>

theorem normalizeVars_raises_on_own_toString:
  "\<forall>depth. normalizeVars depth vars_with_own_toString = Inl TypeError"
  by (simp add: handler_defs vars_with_own_toString_def)

text \<open>
  On the example of the spec; on a label that holds an unconvertible object; on a key
  nested three levels deep, when the call stack admits two levels and when it admits three:
\<close>

theorem normalizeVars_raises_iff_unconvertible_witness:
  "vars_stringable 3000 vars_example
   \<and> (\<exists>r. normalizeVars 3000 vars_example = Inr r
         \<and> (r = Undefined \<or> (\<exists>ys. r = Arr ys \<and> ys \<noteq> [] \<and> list_all keeps ys)))
   \<and> \<not> vars_stringable 3000 (Arr [Str ''a'', Obj (fmap_of_list [(''label'', Arr [Obj (fmap_of_list [(''toString'', Null)])])])])
   \<and> (\<exists>e. normalizeVars 3000 (Arr [Str ''a'', Obj (fmap_of_list [(''label'', Arr [Obj (fmap_of_list [(''toString'', Null)])])])]) = Inl e)
   \<and> \<not> vars_stringable 2 (Arr [Obj (fmap_of_list [(''key'', Arr [Arr [Arr [Str ''p'']]]), (''label'', Str ''Path'')])])
   \<and> (\<exists>e. normalizeVars 2 (Arr [Obj (fmap_of_list [(''key'', Arr [Arr [Arr [Str ''p'']]]), (''label'', Str ''Path'')])]) = Inl e)
   \<and> vars_stringable 3 (Arr [Obj (fmap_of_list [(''key'', Arr [Arr [Arr [Str ''p'']]]), (''label'', Str ''Path'')])])
   \<and> (\<exists>r. normalizeVars 3 (Arr [Obj (fmap_of_list [(''key'', Arr [Arr [Arr [Str ''p'']]]), (''label'', Str ''Path'')])]) = Inr r)"
proof -
  have 1: "vars_stringable 3000 vars_example"
    by (simp add: stringable_defs vars_example_def opt_member_def)
  have 2: "\<not> vars_stringable 3000 (Arr [Str ''a'', Obj (fmap_of_list [(''label'', Arr [Obj (fmap_of_list [(''toString'', Null)])])])])"
    by (simp add: stringable_defs opt_member_def)
  have 3: "\<not> vars_stringable 2 (Arr [Obj (fmap_of_list [(''key'', Arr [Arr [Arr [Str ''p'']]]), (''label'', Str ''Path'')])])"
    by (simp add: stringable_defs opt_member_def)
  have 4: "vars_stringable 3 (Arr [Obj (fmap_of_list [(''key'', Arr [Arr [Arr [Str ''p'']]]), (''label'', Str ''Path'')])])"
    by (simp add: stringable_defs opt_member_def)
  from 1 2 3 4 normalizeVars_raises_iff_unconvertible [of 3000 vars_example]
    normalizeVars_raises_iff_unconvertible [of 3000 "Arr [Str ''a'', Obj (fmap_of_list [(''label'', Arr [Obj (fmap_of_list [(''toString'', Null)])])])]"]
    normalizeVars_raises_iff_unconvertible [of 2 "Arr [Obj (fmap_of_list [(''key'', Arr [Arr [Arr [Str ''p'']]]), (''label'', Str ''Path'')])]"]
    normalizeVars_raises_iff_unconvertible [of 3 "Arr [Obj (fmap_of_list [(''key'', Arr [Arr [Arr [Str ''p'']]]), (''label'', Str ''Path'')])]"]
  show ?thesis by blast
qed

subsection \<open>C10: the frame of an update\<close>

text \<open>
  C10 states that after a successful update of an existing id the updated record is at the
  position it had in the persisted sequence and every other record is completely
  unchanged. What the code does: the result takes the place of the first record that has
  the path id, and the whole sequence is written with \<^verbatim>\<open>JSON.stringify\<close>. Every other
  record is persisted as \<^verbatim>\<open>JSON.stringify\<close> writes it (\<open>json_element\<close>), and it is
  unchanged exactly when it holds no number that is not finite and no negative zero
  (\<open>json_exact\<close>), as every record that the server wrote does.
\<close>

theorem put_steps_keeps_position:
  assumes "put_steps env ident req_body st = (Inr r, st')" and "status r = 200"
  shows "\<exists>steps steps' idx updated.
           load st = Inr steps \<and> load st' = Inr steps' \<and> length steps' = length steps
         \<and> idx < length steps \<and> property (steps ! idx) ''id'' = Str ident
         \<and> (\<forall>j<idx. property (steps ! j) ''id'' \<noteq> Str ident)
         \<and> body r = Some updated \<and> property updated ''id'' = Str ident
         \<and> steps' ! idx = updated
         \<and> (\<forall>j<length steps. j \<noteq> idx \<longrightarrow> steps' ! j = json_element (steps ! j))
         \<and> (\<forall>j<length steps. j \<noteq> idx \<longrightarrow>
               (steps' ! j = steps ! j \<longleftrightarrow> json_exact (steps ! j)))"
proof -
  from put_steps_200 [OF assms] obtain steps idx m where
    steps: "load st = Inr steps"
    and idx: "findIndex (has_id ident) steps = Inr (Some idx)"
    and m: "renormalize (String_depth env)
              (merged env ident (steps ! idx) (coalesce req_body (Obj fmempty))) = Inr m"
    and r: "r = res_json 200 (Obj m)"
    and st': "st' = Some (JSON_text (Arr (map json_element (steps[idx := Obj m]))))"
    by blast
  define updated where "updated = jsonify (Obj m)"
  define steps' where "steps' = (map json_element steps)[idx := updated]"
  from findIndex_Some [OF idx] have len: "idx < length steps"
    and "has_id ident (steps ! idx) = Inr True"
    and before: "\<forall>j<idx. has_id ident (steps ! j) = Inr False"
    by simp_all
  then have found: "property (steps ! idx) ''id'' = Str ident"
    by (simp add: has_id_Inr)
  from before have first: "\<forall>j<idx. property (steps ! j) ''id'' \<noteq> Str ident"
    by (simp add: has_id_Inr)
  have "fmlookup m ''id'' = Some (Str ident)"
    using renormalize_Inr(1) [OF m, of "''id''"] by (simp add: fmlookup_merged)
  then have ident: "property updated ''id'' = Str ident"
    by (simp add: updated_def)
  have loaded: "load st' = Inr steps'"
    by (simp add: st' steps'_def updated_def map_update json_element_def del: jsonify.simps)
  have sent: "body r = Some updated"
    by (simp add: r updated_def del: jsonify.simps)
  have at: "steps' ! idx = updated"
    using len by (simp add: steps'_def)
  have others: "\<forall>j<length steps. j \<noteq> idx \<longrightarrow> steps' ! j = json_element (steps ! j)"
    by (simp add: steps'_def)
  then have exact: "\<forall>j<length steps. j \<noteq> idx \<longrightarrow>
      (steps' ! j = steps ! j \<longleftrightarrow> json_exact (steps ! j))"
    by (simp add: json_element_fixed_iff)
  have "length steps' = length steps"
    by (simp add: steps'_def)
  with steps loaded len found first sent ident at others exact show ?thesis
    by blast
qed

text \<open>
  The claim as stated fails on a file whose second record holds the number \<^verbatim>\<open>1e999\<close>: an
  update of the first record is answered 200 and the second record holds \<^verbatim>\<open>null\<close>
  afterwards.
\<close>

theorem put_steps_changes_record_with_1e999:
  "load storage_1e999 = Inr [record1, record_1e999]
   \<and> stored_field ''size'' storage_1e999 = Inr [Undefined, Num ''Infinity'']
   \<and> map_sum id status
       (fst (put_steps env1 ''1700000000000-8f3c''
          (Obj (fmap_of_list [(''title'', Str ''Move'')])) storage_1e999)) = Inr 200
   \<and> stored_field ''size''
       (snd (put_steps env1 ''1700000000000-8f3c''
          (Obj (fmap_of_list [(''title'', Str ''Move'')])) storage_1e999))
     = Inr [Undefined, Null]"
  by (simp add: handler_defs storage_1e999_def record1_def record_1e999_def env1_depth)

text \<open>
  An update of the second record of a collection of two: the result is second, the first
  record is as it was.
\<close>

theorem put_steps_keeps_position_witness:
  "\<exists>r st' updated.
     load storage2 = Inr [record2, record1]
     \<and> put_steps env1 ''1700000000000-8f3c''
       (Obj (fmap_of_list [(''title'', Str ''Move''), (''id'', Str ''other'')])) storage2
       = (Inr r, st')
     \<and> status r = 200 \<and> body r = Some updated
     \<and> property updated ''id'' = Str ''1700000000000-8f3c''
     \<and> load st' = Inr [record2, updated]"
proof -
  from put_steps_storage2 obtain r st' where
    1: "put_steps env1 ''1700000000000-8f3c''
          (Obj (fmap_of_list [(''title'', Str ''Move''), (''id'', Str ''other'')])) storage2
          = (Inr r, st')"
    and 2: "status r = 200"
    by blast
  from put_steps_keeps_position [OF 1 2] load_storage2
  obtain steps' idx updated where
    loaded: "load st' = Inr steps'" "length steps' = length [record2, record1]"
    and idx: "idx < length [record2, record1]"
      "property ([record2, record1] ! idx) ''id'' = Str ''1700000000000-8f3c''"
    and updated: "body r = Some updated" "property updated ''id'' = Str ''1700000000000-8f3c''"
      "steps' ! idx = updated"
    and others: "\<forall>j<length [record2, record1]. j \<noteq> idx \<longrightarrow>
        (steps' ! j = [record2, record1] ! j \<longleftrightarrow> json_exact ([record2, record1] ! j))"
    by auto
  from idx have "idx = 1"
    by (cases idx) (simp_all add: record2_def)
  moreover have "json_exact record2"
    by (simp add: record2_def json_exact_Obj)
  ultimately have "steps' ! 0 = record2" "steps' ! 1 = updated"
    using others updated(3) by auto
  with loaded(2) have "steps' = [record2, updated]"
    by (cases steps'; cases "tl steps'") auto
  with 1 2 loaded(1) updated load_storage2 show ?thesis
    by (intro exI [of _ r] exI [of _ st'] exI [of _ updated]) simp
qed

end
